theory Spec2Isabelle
  imports Main "HOL-Library.Word" "HOL-Library.Numeral_Type"
begin

section \<open>Machine types of the wrapper\<close>

text \<open>
  The wrapper (\<^verbatim>\<open>fourq.hpp\<close>, \<^verbatim>\<open>fourq.cpp\<close>) stores a scalar as
  \<^verbatim>\<open>std::array<digit_t, NWORDS_ORDER>\<close> with four 64-bit digits in little-endian
  word order, and exchanges scalars and points as \<^verbatim>\<open>std::array<uint8_t, 32>\<close>.
\<close>

type_synonym digit_t = "64 word"
type_synonym uint8_t = "8 word"
type_synonym uint32_t = "32 word"

text \<open>\<^verbatim>\<open>EccDataType\<close>: a byte array; every array the wrapper builds has 32 entries.\<close>

type_synonym EccDataType = "uint8_t list"

definition ECC_KEY_LENGTH :: nat where
  "ECC_KEY_LENGTH = 32"

datatype fourq_scalar_t = Digits digit_t digit_t digit_t digit_t

fun digits :: "fourq_scalar_t \<Rightarrow> digit_t list" where
  "digits (Digits a b c d) = [a, b, c, d]"

text \<open>The number a digit array stands for (digit 0 is the least significant).\<close>

fun scalar_val :: "fourq_scalar_t \<Rightarrow> nat" where
  "scalar_val (Digits a b c d) =
     unat a + 2 ^ 64 * unat b + 2 ^ 128 * unat c + 2 ^ 192 * unat d"

text \<open>The exceptions of the wrapper, named by the spec's taxonomy. Every \<^verbatim>\<open>throw\<close>
  of the source is one of these:
  \<^item> \<open>FormatError\<close>: the length checks of \<^verbatim>\<open>Scalar::fromString\<close>
    (\<^verbatim>\<open>std::runtime_error\<close>) and \<^verbatim>\<open>Point::fromString\<close> (\<^verbatim>\<open>std::invalid_argument\<close>),
    and the \<^verbatim>\<open>std::invalid_argument\<close> throws of \<^verbatim>\<open>hex_string_to_bytes\<close>;
  \<^item> \<open>ConversionError\<close>: the \<^verbatim>\<open>std::runtime_error\<close> of \<^verbatim>\<open>hex_string_to_bytes\<close> for an
    error code of \<^verbatim>\<open>from_chars\<close> other than \<^verbatim>\<open>invalid_argument\<close>;
  \<^item> \<open>ValidationError\<close>: "Point decoding failed" and "ecc_point_validate failed";
  \<^item> \<open>ArithmeticError\<close>: division by zero, inversion of zero, and a backend scalar
    multiplication that reports failure.\<close>

datatype error = FormatError | ConversionError | ValidationError | ArithmeticError

datatype ECCRYPTO_STATUS = ECCRYPTO_SUCCESS | ECCRYPTO_ERROR nat

section \<open>utils.hpp: hexadecimal conversion\<close>

text \<open>One output step of \<^verbatim>\<open>bytes_to_hex_string\<close>: \<^verbatim>\<open>std::hex\<close> prints lower-case digits.\<close>

definition hex_char :: "nat \<Rightarrow> char" where
  "hex_char d = (if d < 10 then char_of (48 + d) else char_of (87 + d))"

definition bytes_to_hex_string :: "uint8_t list \<Rightarrow> string" where
  "bytes_to_hex_string bytes =
     concat (map (\<lambda>b. [hex_char (unat b div 16), hex_char (unat b mod 16)]) bytes)"

text \<open>The digits \<^verbatim>\<open>std::from_chars\<close> accepts in base 16: \<^verbatim>\<open>0-9\<close>, \<^verbatim>\<open>a-f\<close>, \<^verbatim>\<open>A-F\<close>.\<close>

definition hex_digit_val :: "char \<Rightarrow> nat option" where
  "hex_digit_val c =
     (let n = (of_char c :: nat) in
      if 48 \<le> n \<and> n \<le> 57 then Some (n - 48)
      else if 97 \<le> n \<and> n \<le> 102 then Some (n - 87)
      else if 65 \<le> n \<and> n \<le> 70 then Some (n - 55)
      else None)"

definition is_hex_digit :: "char \<Rightarrow> bool" where
  "is_hex_digit c = (hex_digit_val c \<noteq> None)"

definition hex_digit_nat :: "char \<Rightarrow> nat" where
  "hex_digit_nat c = (case hex_digit_val c of Some d \<Rightarrow> d | None \<Rightarrow> 0)"

datatype errc = errc_ok | errc_invalid_argument | errc_result_out_of_range

text \<open>\<^verbatim>\<open>std::from_chars(first, last, byte, 16)\<close> for a \<^verbatim>\<open>uint8_t\<close>: it consumes the longest
  run of hexadecimal digits; the result is how many characters were consumed
  (\<^verbatim>\<open>ptr - first\<close>), the error code, and the value.\<close>

definition from_chars :: "string \<Rightarrow> nat \<times> errc \<times> nat" where
  "from_chars s =
     (let ds = takeWhile is_hex_digit s;
          v = foldl (\<lambda>acc c. 16 * acc + hex_digit_nat c) 0 ds
      in if ds = [] then (0, errc_invalid_argument, 0)
         else if 255 < v then (length ds, errc_result_out_of_range, 0)
         else (length ds, errc_ok, v))"

text \<open>The loop of \<^verbatim>\<open>hex_string_to_bytes\<close> over the pairs of characters. The result is the
  list of the bytes written to \<^verbatim>\<open>out[0]\<close>, \<^verbatim>\<open>out[1]\<close>, ...; both callers pass a string of
  64 characters and an array of 32 bytes, so the whole array is written.\<close>

fun hex_pairs :: "string \<Rightarrow> error + uint8_t list" where
  "hex_pairs (c1 # c2 # rest) =
     (case from_chars [c1, c2] of (n, ec, v) \<Rightarrow>
        if n = 0 then Inl FormatError
        else if ec = errc_invalid_argument then Inl FormatError
        else if ec \<noteq> errc_ok then Inl ConversionError
        else if n \<noteq> 2 then Inl FormatError
        else (case hex_pairs rest of
                Inl e \<Rightarrow> Inl e
              | Inr bs \<Rightarrow> Inr (of_nat v # bs)))"
| "hex_pairs _ = Inr []"

definition hex_string_to_bytes :: "string \<Rightarrow> error + uint8_t list" where
  "hex_string_to_bytes hex =
     (if length hex mod 2 \<noteq> 0 then Inl FormatError else hex_pairs hex)"

section \<open>fourq.cpp: internal helpers\<close>

definition reverse_bytes :: "uint8_t list \<Rightarrow> uint8_t list" where
  "reverse_bytes inp = map (\<lambda>i. inp ! (31 - i)) [0..<32]"

text \<open>The union \<^verbatim>\<open>_M64\<close> overlays a 64-bit word with its eight bytes; on the little-endian
  hosts the library is built for, \<^verbatim>\<open>b0\<close> is the least significant byte.\<close>

definition le_nat :: "uint8_t list \<Rightarrow> nat" where
  "le_nat bs = foldr (\<lambda>b acc. unat b + 256 * acc) bs 0"

definition M64_bytes :: "digit_t \<Rightarrow> uint8_t list" where
  "M64_bytes w = map (\<lambda>k. ucast (drop_bit (8 * k) w)) [0..<8]"

definition M64_u64 :: "uint8_t list \<Rightarrow> digit_t" where
  "M64_u64 bs = word_of_nat (le_nat bs)"

definition toBytes :: "fourq_scalar_t \<Rightarrow> EccDataType" where
  "toBytes w = concat (map M64_bytes (digits w))"

definition toWords :: "EccDataType \<Rightarrow> fourq_scalar_t" where
  "toWords b =
     Digits (M64_u64 (take 8 b)) (M64_u64 (take 8 (drop 8 b)))
            (M64_u64 (take 8 (drop 16 b))) (M64_u64 (take 8 (drop 24 b)))"

section \<open>The curve backend\<close>

text \<open>
  The FourQ library itself is not part of the wrapper: the wrapper reaches it only
  through the C functions below, so the model takes them as a parameter. The internal
  point representations \<^verbatim>\<open>point_extproj_t\<close> (type \<open>'e\<close>) and
  \<^verbatim>\<open>point_extproj_precomp_t\<close> (type \<open>'p\<close>) are opaque to the wrapper, which only copies
  them. An affine point \<^verbatim>\<open>point_t\<close> has two coordinates in the quadratic extension field;
  each coordinate is a pair of 128-bit field elements (\<^verbatim>\<open>y[0][0]\<close> is the least significant
  digit of the first one).

  A C function that returns \<^verbatim>\<open>bool\<close> and writes its result through a pointer is an
  \<open>option\<close>; \<^verbatim>\<open>decode\<close> returns its status together with whatever it left in the output
  point, because \<^verbatim>\<open>Point::fromString\<close> goes on with that point whatever the status.
\<close>

type_synonym felm_t = "128 word"
type_synonym f2elm_t = "felm_t \<times> felm_t"

record point_t =
  px :: f2elm_t
  py :: f2elm_t

record ('e, 'p) backend =
  curve_order :: fourq_scalar_t
  modulo_order :: "fourq_scalar_t \<Rightarrow> fourq_scalar_t"
  add_mod_order :: "fourq_scalar_t \<Rightarrow> fourq_scalar_t \<Rightarrow> fourq_scalar_t"
  subtract_mod_order :: "fourq_scalar_t \<Rightarrow> fourq_scalar_t \<Rightarrow> fourq_scalar_t"
  to_Montgomery :: "fourq_scalar_t \<Rightarrow> fourq_scalar_t"
  from_Montgomery :: "fourq_scalar_t \<Rightarrow> fourq_scalar_t"
  Montgomery_multiply_mod_order :: "fourq_scalar_t \<Rightarrow> fourq_scalar_t \<Rightarrow> fourq_scalar_t"
  Montgomery_inversion_mod_order :: "fourq_scalar_t \<Rightarrow> fourq_scalar_t"
  decode :: "EccDataType \<Rightarrow> ECCRYPTO_STATUS \<times> point_t"
  encode :: "point_t \<Rightarrow> EccDataType"
  point_setup :: "point_t \<Rightarrow> 'e"
  eccnorm :: "'e \<Rightarrow> point_t"
  ecc_point_validate :: "'e \<Rightarrow> bool"
  eccset :: point_t
  R1_to_R2 :: "'e \<Rightarrow> 'p"
  eccadd :: "'p \<Rightarrow> 'e \<Rightarrow> 'e"
  ecc_mul :: "point_t \<Rightarrow> fourq_scalar_t \<Rightarrow> bool \<Rightarrow> point_t option"
  ecc_mul_fixed :: "fourq_scalar_t \<Rightarrow> point_t option"
  ecc_mul_double :: "fourq_scalar_t \<Rightarrow> point_t \<Rightarrow> fourq_scalar_t \<Rightarrow> point_t option"
  SchnorrQ_Sign ::
    "EccDataType \<Rightarrow> EccDataType \<Rightarrow> uint8_t list \<Rightarrow> uint32_t \<Rightarrow> ECCRYPTO_STATUS \<times> uint8_t list"

section \<open>class Scalar\<close>

text \<open>A \<^verbatim>\<open>Scalar\<close> has the one field \<^verbatim>\<open>_b\<close>.\<close>

type_synonym Scalar = fourq_scalar_t

definition Scalar_of_uint32 :: "uint32_t \<Rightarrow> Scalar" where
  "Scalar_of_uint32 val = Digits (ucast val) 0 0 0"

definition Scalar_of_bytes :: "('e, 'p) backend \<Rightarrow> EccDataType \<Rightarrow> Scalar" where
  "Scalar_of_bytes bk val = modulo_order bk (toWords val)"

definition Scalar_getRaw :: "Scalar \<Rightarrow> EccDataType" where
  "Scalar_getRaw s = toBytes s"

definition Scalar_toString :: "Scalar \<Rightarrow> string" where
  "Scalar_toString s = bytes_to_hex_string (Scalar_getRaw s)"

text \<open>\<^verbatim>\<open>Scalar::fromString\<close> assigns \<^verbatim>\<open>_b\<close> only in its last statement: the result is the
  exception, or the new value of the receiver.\<close>

definition Scalar_fromString :: "('e, 'p) backend \<Rightarrow> string \<Rightarrow> error + Scalar" where
  "Scalar_fromString bk ins =
     (if length ins \<noteq> 2 * ECC_KEY_LENGTH then Inl FormatError
      else (case hex_string_to_bytes ins of
              Inl e \<Rightarrow> Inl e
            | Inr btmp \<Rightarrow> Inr (modulo_order bk (toWords btmp))))"

definition Scalar_isZero :: "Scalar \<Rightarrow> bool" where
  "Scalar_isZero s = list_all (\<lambda>word. word = 0) (digits s)"

definition Scalar_Sanitize :: "('e, 'p) backend \<Rightarrow> Scalar \<Rightarrow> Scalar" where
  "Scalar_Sanitize bk s = modulo_order bk s"

definition Scalar_add :: "('e, 'p) backend \<Rightarrow> Scalar \<Rightarrow> Scalar \<Rightarrow> Scalar" where
  "Scalar_add bk lh rh = add_mod_order bk lh rh"

definition Scalar_sub :: "('e, 'p) backend \<Rightarrow> Scalar \<Rightarrow> Scalar \<Rightarrow> Scalar" where
  "Scalar_sub bk lh rh = subtract_mod_order bk lh rh"

definition Scalar_mul :: "('e, 'p) backend \<Rightarrow> Scalar \<Rightarrow> Scalar \<Rightarrow> Scalar" where
  "Scalar_mul bk lh rh =
     (let lt = to_Montgomery bk lh;
          rt = to_Montgomery bk rh;
          ret = Montgomery_multiply_mod_order bk lt rt
      in from_Montgomery bk ret)"

definition Scalar_div :: "('e, 'p) backend \<Rightarrow> Scalar \<Rightarrow> Scalar \<Rightarrow> error + Scalar" where
  "Scalar_div bk lh rh =
     (if Scalar_isZero rh then Inl ArithmeticError
      else let lt = to_Montgomery bk lh;
               rt_mont = to_Montgomery bk rh;
               ivt_mont = Montgomery_inversion_mod_order bk rt_mont;
               ret = Montgomery_multiply_mod_order bk lt ivt_mont
           in Inr (from_Montgomery bk ret))"

definition Scalar_invert :: "('e, 'p) backend \<Rightarrow> Scalar \<Rightarrow> error + Scalar" where
  "Scalar_invert bk b =
     (if Scalar_isZero b then Inl ArithmeticError
      else let b_mont = to_Montgomery bk b;
               ret = Montgomery_inversion_mod_order bk b_mont
           in Inr (from_Montgomery bk ret))"

definition Scalar_getZero :: Scalar where
  "Scalar_getZero = Scalar_of_uint32 0"

definition Scalar_negate :: "('e, 'p) backend \<Rightarrow> Scalar \<Rightarrow> Scalar" where
  "Scalar_negate bk b =
     (if Scalar_isZero b then Scalar_of_uint32 0
      else subtract_mod_order bk (curve_order bk) b)"

section \<open>class Point\<close>

text \<open>A \<^verbatim>\<open>Point\<close> has the one field \<^verbatim>\<open>_pe\<close>, of the backend's type \<open>'e\<close>.\<close>

definition fp2zero1271 :: f2elm_t where
  "fp2zero1271 = (0, 0)"

text \<open>The affine identity built by \<^verbatim>\<open>Point::Point()\<close> and \<^verbatim>\<open>Point::isZero\<close>: both
  coordinates zeroed, then \<^verbatim>\<open>y[0][0] = 1\<close>.\<close>

definition zero_affine :: point_t where
  "zero_affine = \<lparr>px = fp2zero1271, py = (1, snd fp2zero1271)\<rparr>"

definition Point_default :: "('e, 'p) backend \<Rightarrow> 'e" where
  "Point_default bk = point_setup bk zero_affine"

definition Point_of_raw :: "('e, 'p) backend \<Rightarrow> EccDataType \<Rightarrow> error + 'e" where
  "Point_of_raw bk val =
     (case decode bk val of (st, pa) \<Rightarrow>
        if st \<noteq> ECCRYPTO_SUCCESS then Inl ValidationError
        else let pe = point_setup bk pa
             in if \<not> ecc_point_validate bk pe then Inl ValidationError else Inr pe)"

definition Point_getRaw :: "('e, 'p) backend \<Rightarrow> 'e \<Rightarrow> EccDataType" where
  "Point_getRaw bk pe = encode bk (eccnorm bk pe)"

definition Point_toString :: "('e, 'p) backend \<Rightarrow> 'e \<Rightarrow> string" where
  "Point_toString bk pe = bytes_to_hex_string (reverse_bytes (Point_getRaw bk pe))"

text \<open>\<^verbatim>\<open>Point::fromString\<close> is a member function that writes \<^verbatim>\<open>_pe\<close> before it validates:
  the result is the exception thrown, if any, and the receiver's \<^verbatim>\<open>_pe\<close> afterwards
  (the argument \<open>this\<close> is its \<^verbatim>\<open>_pe\<close> before the call).\<close>

definition Point_fromString :: "('e, 'p) backend \<Rightarrow> string \<Rightarrow> 'e \<Rightarrow> error option \<times> 'e" where
  "Point_fromString bk str this =
     (if length str \<noteq> 2 * ECC_KEY_LENGTH then (Some FormatError, this)
      else (case hex_string_to_bytes str of
              Inl e \<Rightarrow> (Some e, this)
            | Inr btmp \<Rightarrow>
                let brev = reverse_bytes btmp;
                    pa = snd (decode bk brev);
                    pe = point_setup bk pa
                in if ecc_point_validate bk pe = False then (Some ValidationError, pe)
                   else (None, pe)))"

definition Point_isZero :: "('e, 'p) backend \<Rightarrow> 'e \<Rightarrow> bool" where
  "Point_isZero bk pe =
     (let normalized_point = eccnorm bk pe;
          x_equal = (px normalized_point = px zero_affine);
          y_equal = (py normalized_point = py zero_affine)
      in x_equal \<and> y_equal)"

definition Point_add_assign :: "('e, 'p) backend \<Rightarrow> 'e \<Rightarrow> 'e \<Rightarrow> 'e" where
  "Point_add_assign bk this that = eccadd bk (R1_to_R2 bk that) this"

definition Point_mul_assign :: "('e, 'p) backend \<Rightarrow> 'e \<Rightarrow> Scalar \<Rightarrow> error + 'e" where
  "Point_mul_assign bk this b =
     (case ecc_mul bk (eccnorm bk this) b False of
        None \<Rightarrow> Inl ArithmeticError
      | Some Q_affine \<Rightarrow> Inr (point_setup bk Q_affine))"

definition Point_MulAdd :: "('e, 'p) backend \<Rightarrow> 'e \<Rightarrow> Scalar \<Rightarrow> Scalar \<Rightarrow> error + 'e" where
  "Point_MulAdd bk this mG mP =
     (case ecc_mul_double bk mG (eccnorm bk this) mP of
        None \<Rightarrow> Inl ArithmeticError
      | Some pr_affine \<Rightarrow> Inr (point_setup bk pr_affine))"

definition Point_eq :: "('e, 'p) backend \<Rightarrow> 'e \<Rightarrow> 'e \<Rightarrow> bool" where
  "Point_eq bk lh rh = (Point_getRaw bk lh = Point_getRaw bk rh)"

definition Point_mul :: "('e, 'p) backend \<Rightarrow> Scalar \<Rightarrow> 'e \<Rightarrow> error + 'e" where
  "Point_mul bk b ep = Point_mul_assign bk ep b"

definition Point_add :: "('e, 'p) backend \<Rightarrow> 'e \<Rightarrow> 'e \<Rightarrow> 'e" where
  "Point_add bk lh rh = Point_add_assign bk lh rh"

definition Point_getOrder :: "('e, 'p) backend \<Rightarrow> Scalar" where
  "Point_getOrder bk = curve_order bk"

definition Point_getBase :: "('e, 'p) backend \<Rightarrow> 'e" where
  "Point_getBase bk = point_setup bk (eccset bk)"

definition Point_getZero :: "('e, 'p) backend \<Rightarrow> 'e" where
  "Point_getZero bk = Point_default bk"

definition Point_mulBase :: "('e, 'p) backend \<Rightarrow> Scalar \<Rightarrow> error + 'e" where
  "Point_mulBase bk b =
     (case ecc_mul_fixed bk b of
        None \<Rightarrow> Inl ArithmeticError
      | Some Q_affine \<Rightarrow> Inr (point_setup bk Q_affine))"

section \<open>fourq.hpp: SchnorrQSign\<close>

text \<open>One call of the backend's \<^verbatim>\<open>SchnorrQ_Sign\<close>: secret key bytes, public key bytes,
  message, and the length cast to \<^verbatim>\<open>unsigned int\<close>.\<close>

type_synonym sign_call = "EccDataType \<times> EccDataType \<times> uint8_t list \<times> uint32_t"

text \<open>The result is the outcome (an exception or the returned \<^verbatim>\<open>bool\<close>), the signature
  buffer afterwards, and the calls of \<^verbatim>\<open>SchnorrQ_Sign\<close> that were made.\<close>

definition SchnorrQSign ::
  "('e, 'p) backend \<Rightarrow> Scalar \<Rightarrow> uint8_t list \<Rightarrow> uint8_t list
     \<Rightarrow> (error + bool) \<times> uint8_t list \<times> sign_call list" where
  "SchnorrQSign bk secretKey msg sig =
     (let skraw = Scalar_getRaw secretKey in
      case Point_mulBase bk secretKey of
        Inl e \<Rightarrow> (Inl e, sig, [])
      | Inr pubkey \<Rightarrow>
          let pkraw = Point_getRaw bk pubkey in
          if length msg = 0 then (Inr False, sig, [])
          else (case SchnorrQ_Sign bk skraw pkraw msg (of_nat (length msg)) of
                  (sret, sig') \<Rightarrow>
                    (Inr (sret = ECCRYPTO_SUCCESS), sig',
                     [(skraw, pkraw, msg, of_nat (length msg))])))"

section \<open>What the wrapper expects of the backend\<close>

definition order_val :: "('e, 'p) backend \<Rightarrow> nat" where
  "order_val bk = scalar_val (curve_order bk)"

definition in_range :: "('e, 'p) backend \<Rightarrow> Scalar \<Rightarrow> bool" where
  "in_range bk s = (scalar_val s < order_val bk)"

text \<open>Modelled from the spec: \<^verbatim>\<open>modulo_order\<close> is the backend's reduction primitive
  ("reduced modulo L via the backend's reduction primitive"); its code is not part of the
  wrapper.\<close>

definition modulo_order_ok :: "('e, 'p) backend \<Rightarrow> bool" where
  "modulo_order_ok bk \<longleftrightarrow>
     0 < order_val bk \<and>
     (\<forall>a. scalar_val (modulo_order bk a) = scalar_val a mod order_val bk)"

text \<open>Modelled from the spec: \<^verbatim>\<open>add_mod_order\<close> and \<^verbatim>\<open>subtract_mod_order\<close> are addition and
  subtraction "performed directly modulo L" on reduced operands; \<^verbatim>\<open>Scalar::negate\<close> also
  subtracts a reduced nonzero value from the order itself ("computes L - value").\<close>

definition mod_arith_ok :: "('e, 'p) backend \<Rightarrow> bool" where
  "mod_arith_ok bk \<longleftrightarrow>
     (\<forall>a b. in_range bk a \<and> in_range bk b \<longrightarrow>
        scalar_val (add_mod_order bk a b) = (scalar_val a + scalar_val b) mod order_val bk) \<and>
     (\<forall>a b. in_range bk a \<and> in_range bk b \<longrightarrow>
        scalar_val (subtract_mod_order bk a b) =
          (scalar_val a + order_val bk - scalar_val b) mod order_val bk) \<and>
     (\<forall>b. in_range bk b \<and> scalar_val b \<noteq> 0 \<longrightarrow>
        scalar_val (subtract_mod_order bk (curve_order bk) b) = order_val bk - scalar_val b)"

text \<open>Modelled from the spec: the Montgomery primitives of the backend, for a radix
  \<open>R\<close> invertible modulo L: conversion into the domain multiplies by \<open>R\<close>, conversion
  back and Montgomery multiplication divide by \<open>R\<close>, and Montgomery inversion maps
  \<open>x\<close> to \<open>R\<^sup>2 / x\<close>.\<close>

definition montgomery_ok :: "('e, 'p) backend \<Rightarrow> bool" where
  "montgomery_ok bk \<longleftrightarrow>
     (\<exists>R R'. R * R' mod order_val bk = 1 \<and>
        (\<forall>a. in_range bk a \<longrightarrow>
           scalar_val (to_Montgomery bk a) = scalar_val a * R mod order_val bk) \<and>
        (\<forall>a. in_range bk a \<longrightarrow>
           scalar_val (from_Montgomery bk a) = scalar_val a * R' mod order_val bk) \<and>
        (\<forall>a b. in_range bk a \<and> in_range bk b \<longrightarrow>
           scalar_val (Montgomery_multiply_mod_order bk a b) =
             scalar_val a * scalar_val b * R' mod order_val bk) \<and>
        (\<forall>a. in_range bk a \<and> scalar_val a \<noteq> 0 \<longrightarrow>
           in_range bk (Montgomery_inversion_mod_order bk a) \<and>
           scalar_val (Montgomery_inversion_mod_order bk a) * scalar_val a mod order_val bk =
             R * R mod order_val bk))"

text \<open>Modelled from the spec: a valid point is one on whose normalized affine form the
  backend's \<^verbatim>\<open>encode\<close> gives 32 bytes that \<^verbatim>\<open>decode\<close> maps back to the same affine
  point, which passes \<^verbatim>\<open>ecc_point_validate\<close> and is unchanged by set-up followed by
  normalization.\<close>

definition valid_point :: "('e, 'p) backend \<Rightarrow> 'e \<Rightarrow> bool" where
  "valid_point bk P =
     (let pa = eccnorm bk P in
      length (encode bk pa) = ECC_KEY_LENGTH \<and>
      decode bk (encode bk pa) = (ECCRYPTO_SUCCESS, pa) \<and>
      ecc_point_validate bk (point_setup bk pa) \<and>
      eccnorm bk (point_setup bk pa) = pa)"

text \<open>Modelled from the spec: \<^verbatim>\<open>point_setup\<close> and \<^verbatim>\<open>eccnorm\<close> convert between the affine
  and the internal form ("internal \<open>\<leftrightarrow>\<close> affine").\<close>

definition setup_norm_ok :: "('e, 'p) backend \<Rightarrow> point_t \<Rightarrow> bool" where
  "setup_norm_ok bk pa = (eccnorm bk (point_setup bk pa) = pa)"

text \<open>\<open>n\<close> times a group element.\<close>

definition smul :: "nat \<Rightarrow> 'g::ab_group_add \<Rightarrow> 'g" where
  "smul n g = ((+) g ^^ n) 0"

text \<open>Modelled from the spec: the group arithmetic of the backend. \<open>den\<close> gives the
  group element an internal point stands for and \<open>ok\<close> holds of the well-formed
  internal points. The generator is well-formed; the fixed-base, variable-base and
  double-base multiplications succeed on well-formed points and compute \<open>k\<cdot>G\<close>,
  \<open>k\<cdot>P\<close> and \<open>k\<cdot>G + l\<cdot>P\<close>; addition of a precomputed point adds; and the
  canonical encoding depends on the group element only.\<close>

definition group_backend_ok ::
  "('e, 'p) backend \<Rightarrow> ('e \<Rightarrow> 'g::ab_group_add) \<Rightarrow> ('e \<Rightarrow> bool) \<Rightarrow> bool" where
  "group_backend_ok bk den ok \<longleftrightarrow>
     ok (point_setup bk (eccset bk)) \<and>
     (\<forall>k. \<exists>Q. ecc_mul_fixed bk k = Some Q \<and> ok (point_setup bk Q) \<and>
        den (point_setup bk Q) = smul (scalar_val k) (den (point_setup bk (eccset bk)))) \<and>
     (\<forall>P k. ok P \<longrightarrow>
        (\<exists>Q. ecc_mul bk (eccnorm bk P) k False = Some Q \<and> ok (point_setup bk Q) \<and>
           den (point_setup bk Q) = smul (scalar_val k) (den P))) \<and>
     (\<forall>P k l. ok P \<longrightarrow>
        (\<exists>Q. ecc_mul_double bk k (eccnorm bk P) l = Some Q \<and> ok (point_setup bk Q) \<and>
           den (point_setup bk Q) =
             smul (scalar_val k) (den (point_setup bk (eccset bk))) + smul (scalar_val l) (den P))) \<and>
     (\<forall>P Q. ok P \<and> ok Q \<longrightarrow>
        ok (eccadd bk (R1_to_R2 bk Q) P) \<and> den (eccadd bk (R1_to_R2 bk Q) P) = den P + den Q) \<and>
     (\<forall>P Q. ok P \<and> ok Q \<and> den P = den Q \<longrightarrow>
        encode bk (eccnorm bk P) = encode bk (eccnorm bk Q))"

section \<open>Specification-side definitions\<close>

text \<open>The number written by a hexadecimal string read as little-endian bytes: characters
  \<open>2i\<close> and \<open>2i+1\<close> are the high and low digit of byte \<open>i\<close>.\<close>

fun hex_le_value :: "string \<Rightarrow> nat" where
  "hex_le_value [] = 0"
| "hex_le_value [c] = 0"
| "hex_le_value (c1 # c2 # rest) =
     16 * hex_digit_nat c1 + hex_digit_nat c2 + 256 * hex_le_value rest"

section \<open>A reference backend: the cyclic group of order 7\<close>

text \<open>A small instance of the backend interface, with scalars modulo 7 (Montgomery radix
  \<open>2\<^sup>2\<^sup>5\<^sup>6 mod 7 = 2\<close>) and the points \<open>k\<cdot>G\<close> for \<open>k < 7\<close>; an internal point is the
  index \<open>k\<close>, its affine form has \<open>x = k\<close> and \<open>y = 1\<close>, and its encoding is the byte
  \<open>k\<close> followed by 31 zero bytes. Its \<^verbatim>\<open>decode\<close> reads the index from the first byte
  and reports an error when the index is 7 or more or another byte is not zero; like
  the C function it leaves the point it read in its output either way. The contracts
  above hold of it, so they are satisfiable, and the theorems below can be run on it.\<close>

definition scalar_of_nat :: "nat \<Rightarrow> fourq_scalar_t" where
  "scalar_of_nat n =
     Digits (of_nat n) (of_nat (n div 2 ^ 64)) (of_nat (n div 2 ^ 128)) (of_nat (n div 2 ^ 192))"

definition model_affine :: "nat \<Rightarrow> point_t" where
  "model_affine k = \<lparr>px = (of_nat k, 0), py = (1, 0)\<rparr>"

definition model_index :: "point_t \<Rightarrow> nat" where
  "model_index pa = unat (fst (px pa))"

definition model_decode :: "EccDataType \<Rightarrow> ECCRYPTO_STATUS \<times> point_t" where
  "model_decode bs =
     (case bs of
        [] \<Rightarrow> (ECCRYPTO_ERROR 0, model_affine 0)
      | b # rest \<Rightarrow>
          (if unat b < 7 \<and> list_all (\<lambda>x. x = 0) rest then ECCRYPTO_SUCCESS else ECCRYPTO_ERROR 0,
           model_affine (unat b)))"

definition model_backend :: "(nat, nat) backend" where
  "model_backend =
     \<lparr>curve_order = Digits 7 0 0 0,
      modulo_order = (\<lambda>a. scalar_of_nat (scalar_val a mod 7)),
      add_mod_order = (\<lambda>a b. scalar_of_nat ((scalar_val a + scalar_val b) mod 7)),
      subtract_mod_order = (\<lambda>a b. scalar_of_nat ((scalar_val a + 7 - scalar_val b mod 7) mod 7)),
      to_Montgomery = (\<lambda>a. scalar_of_nat (scalar_val a * 2 mod 7)),
      from_Montgomery = (\<lambda>a. scalar_of_nat (scalar_val a * 4 mod 7)),
      Montgomery_multiply_mod_order = (\<lambda>a b. scalar_of_nat (scalar_val a * scalar_val b * 4 mod 7)),
      Montgomery_inversion_mod_order = (\<lambda>a. scalar_of_nat ((scalar_val a mod 7) ^ 5 * 4 mod 7)),
      decode = model_decode,
      encode = (\<lambda>pa. ucast (fst (px pa)) # replicate 31 0),
      point_setup = model_index,
      eccnorm = model_affine,
      ecc_point_validate = (\<lambda>e. e < 7),
      eccset = model_affine 1,
      R1_to_R2 = (\<lambda>e. e),
      eccadd = (\<lambda>p e. (p + e) mod 7),
      ecc_mul = (\<lambda>pa k clear_cofactor.
        if model_index pa < 7 then Some (model_affine (scalar_val k * model_index pa mod 7))
        else None),
      ecc_mul_fixed = (\<lambda>k. Some (model_affine (scalar_val k mod 7))),
      ecc_mul_double = (\<lambda>k pa l.
        if model_index pa < 7
        then Some (model_affine ((scalar_val k + scalar_val l * model_index pa) mod 7))
        else None),
      SchnorrQ_Sign = (\<lambda>sk pk msg len. (ECCRYPTO_SUCCESS, sk @ pk))\<rparr>"

definition model_den :: "nat \<Rightarrow> 7" where
  "model_den e = of_nat e"

definition model_ok :: "nat \<Rightarrow> bool" where
  "model_ok e = (e < 7)"

section \<open>Arithmetic modulo the order\<close>

lemma mont_cancel:
  fixes L R R' x :: nat
  assumes "R * R' mod L = 1"
  shows "(x * R * R') mod L = x mod L"
proof -
  have "(x * (R * R')) mod L = (x * (R * R' mod L)) mod L"
    by (simp add: mod_mult_right_eq)
  then show ?thesis using assms by (simp add: mult.assoc)
qed

lemma mod_prod3:
  fixes x y z L :: nat
  shows "(x mod L * (y mod L) * z) mod L = (x * y * z) mod L"
proof -
  have "(x mod L * (y mod L) * z) mod L = ((x mod L * (y mod L)) mod L * z) mod L"
    by (rule mod_mult_left_eq [symmetric])
  also have "(x mod L * (y mod L)) mod L = (x * y) mod L"
    by (rule mod_mult_eq)
  also have "((x * y) mod L * z) mod L = (x * y * z) mod L"
    by (rule mod_mult_left_eq)
  finally show ?thesis .
qed

lemma mont_mul:
  fixes L R R' A B :: nat
  assumes RR: "R * R' mod L = 1"
  shows "((A * R mod L) * (B * R mod L) * R' mod L) * R' mod L = A * B mod L"
proof -
  have "((A * R mod L) * (B * R mod L) * R' mod L) * R' mod L
      = ((A * R mod L) * (B * R mod L) * R') * R' mod L"
    by (rule mod_mult_left_eq)
  also have "\<dots> = (A * R mod L) * (B * R mod L) * (R' * R') mod L"
    by (simp only: mult.assoc)
  also have "\<dots> = (A * R) * (B * R) * (R' * R') mod L"
    by (rule mod_prod3)
  also have "\<dots> = ((A * B * R * R') * R * R') mod L"
    by (simp add: ac_simps)
  also have "\<dots> = (A * B * R * R') mod L"
    by (rule mont_cancel [OF RR])
  also have "\<dots> = (A * B) mod L"
    by (rule mont_cancel [OF RR])
  finally show ?thesis .
qed

lemma mont_inv_unscaled:
  fixes L R R' I B :: nat
  assumes RR: "R * R' mod L = 1"
    and inv: "I * (B * R mod L) mod L = R * R mod L"
  shows "(I * B) mod L = R mod L"
proof -
  have e: "(I * B * R) mod L = (R * R) mod L"
    using inv by (simp add: mod_simps mult.assoc)
  have "(I * B) mod L = (I * B * R * R') mod L"
    by (rule mont_cancel [OF RR, symmetric])
  also have "\<dots> = ((I * B * R) mod L * R') mod L"
    by (simp add: mod_simps)
  also have "\<dots> = ((R * R) mod L * R') mod L"
    by (simp only: e)
  also have "\<dots> = (R * R * R') mod L"
    by (simp add: mod_simps)
  also have "\<dots> = R mod L"
    by (rule mont_cancel [OF RR])
  finally show ?thesis .
qed

lemma mont_div:
  fixes L R R' A B I :: nat
  assumes RR: "R * R' mod L = 1"
    and inv: "I * (B * R mod L) mod L = R * R mod L"
  shows "(((A * B mod L) * R mod L) * I * R' mod L) * R' mod L = A mod L"
proof -
  have ib: "(I * B) mod L = R mod L"
    by (rule mont_inv_unscaled [OF RR inv])
  have "(((A * B mod L) * R mod L) * I * R' mod L) * R' mod L
      = (((A * B mod L) * R mod L) * I * R') * R' mod L"
    by (rule mod_mult_left_eq)
  also have "\<dots> = ((A * B mod L) * R mod L) * (I * R' * R') mod L"
    by (simp only: mult.assoc)
  also have "\<dots> = ((A * B mod L) * R) * (I * R' * R') mod L"
    by (rule mod_mult_left_eq)
  also have "\<dots> = (A * B mod L) * (R * (I * R' * R')) mod L"
    by (simp only: mult.assoc)
  also have "\<dots> = (A * B) * (R * (I * R' * R')) mod L"
    by (rule mod_mult_left_eq)
  also have "\<dots> = (A * B * R * I * R' * R') mod L"
    by (simp only: mult.assoc)
  also have "\<dots> = ((I * B) * (A * R * R' * R')) mod L"
    by (simp add: ac_simps)
  also have "\<dots> = ((I * B) mod L * (A * R * R' * R')) mod L"
    by (simp add: mod_simps)
  also have "\<dots> = (R mod L * (A * R * R' * R')) mod L"
    by (simp only: ib)
  also have "\<dots> = (R * (A * R * R' * R')) mod L"
    by (rule mod_mult_left_eq)
  also have "\<dots> = ((A * R * R') * R * R') mod L"
    by (simp add: ac_simps)
  also have "\<dots> = (A * R * R') mod L"
    by (rule mont_cancel [OF RR])
  also have "\<dots> = A mod L"
    by (rule mont_cancel [OF RR])
  finally show ?thesis .
qed

lemma mont_nonzero:
  fixes L R R' B :: nat
  assumes RR: "R * R' mod L = 1" and B: "B < L" "B \<noteq> 0"
  shows "B * R mod L \<noteq> 0"
proof
  assume z: "B * R mod L = 0"
  have "B mod L = (B * R * R') mod L"
    by (rule mont_cancel [OF RR, symmetric])
  also have "\<dots> = ((B * R mod L) * R') mod L"
    by (simp add: mod_simps)
  also have "\<dots> = 0" by (simp add: z)
  finally show False using B by simp
qed

section \<open>Scalars as numbers\<close>

lemma base_split:
  fixes x y u v B :: nat
  assumes "x < B" "y < B" "x + B * u = y + B * v"
  shows "x = y \<and> u = v"
proof -
  have "(x + B * u) mod B = (y + B * v) mod B" using assms(3) by simp
  then have xy: "x = y" using assms(1,2) by simp
  have "(x + B * u) div B = (y + B * v) div B" using assms(3) by simp
  then have "u = v" using assms(1,2) by simp
  with xy show ?thesis by simp
qed

lemma scalar_val_inj: "scalar_val a = scalar_val b \<Longrightarrow> a = b"
proof (cases a; cases b)
  fix a0 a1 a2 a3 b0 b1 b2 b3
  assume A: "a = Digits a0 a1 a2 a3" and B: "b = Digits b0 b1 b2 b3"
    and eq: "scalar_val a = scalar_val b"
  have bnd: "unat a0 < 2 ^ 64" "unat a1 < 2 ^ 64" "unat a2 < 2 ^ 64" "unat a3 < 2 ^ 64"
       "unat b0 < 2 ^ 64" "unat b1 < 2 ^ 64" "unat b2 < 2 ^ 64" "unat b3 < 2 ^ 64"
    using unsigned_less [where 'b = 64 and 'a = nat] by simp_all
  have e0: "unat a0 + 2 ^ 64 * (unat a1 + 2 ^ 64 * (unat a2 + 2 ^ 64 * unat a3))
          = unat b0 + 2 ^ 64 * (unat b1 + 2 ^ 64 * (unat b2 + 2 ^ 64 * unat b3))"
    using eq unfolding A B by (simp add: algebra_simps)
  from base_split [OF bnd(1) bnd(5) e0]
  have d0: "unat a0 = unat b0"
    and e1: "unat a1 + 2 ^ 64 * (unat a2 + 2 ^ 64 * unat a3)
           = unat b1 + 2 ^ 64 * (unat b2 + 2 ^ 64 * unat b3)" by simp_all
  from base_split [OF bnd(2) bnd(6) e1]
  have d1: "unat a1 = unat b1"
    and e2: "unat a2 + 2 ^ 64 * unat a3 = unat b2 + 2 ^ 64 * unat b3" by simp_all
  from base_split [OF bnd(3) bnd(7) e2]
  have d2: "unat a2 = unat b2" and d3: "unat a3 = unat b3" by simp_all
  show "a = b" using d0 d1 d2 d3 unfolding A B by (simp add: word_unat_eq_iff)
qed

lemma Scalar_isZero_val: "Scalar_isZero s \<longleftrightarrow> scalar_val s = 0"
  by (cases s) (auto simp: Scalar_isZero_def unat_eq_0)

lemma scalar_of_nat_small: "n < 2 ^ 64 \<Longrightarrow> scalar_val (scalar_of_nat n) = n"
  by (simp add: scalar_of_nat_def unat_of_nat)

section \<open>The reference backend meets the scalar contracts\<close>

lemma model_order_val: "order_val model_backend = 7"
  by (simp add: order_val_def model_backend_def)

lemma model_in_range: "in_range model_backend (scalar_of_nat (n mod 7))"
proof -
  have "n mod 7 < 2 ^ 64" by (rule less_trans [where y = 7]) simp_all
  then show ?thesis by (simp add: in_range_def model_order_val scalar_of_nat_small)
qed

lemma model_modulo_order_ok: "modulo_order_ok model_backend"
proof -
  have "scalar_val (modulo_order model_backend a) = scalar_val a mod 7" for a
  proof -
    have "scalar_val a mod 7 < 2 ^ 64" by (rule less_trans [where y = 7]) simp_all
    then show ?thesis by (simp add: model_backend_def scalar_of_nat_small)
  qed
  then show ?thesis by (simp add: modulo_order_ok_def model_order_val)
qed

lemma scalar_of_nat_mod7: "scalar_val (scalar_of_nat (n mod 7)) = n mod 7"
proof -
  have "n mod 7 < 2 ^ 64" by (rule less_trans [where y = 7]) simp_all
  then show ?thesis by (rule scalar_of_nat_small)
qed

lemma sub7: "b < 7 \<Longrightarrow> 0 < b \<Longrightarrow> (14 - b) mod 7 = (7::nat) - b"
  by (cases "b = 1"; cases "b = 2"; cases "b = 3"; cases "b = 4"; cases "b = 5"; cases "b = 6"; simp)

lemma model_mod_arith_ok: "mod_arith_ok model_backend"
proof -
  have sub: "scalar_val (subtract_mod_order model_backend a b)
      = (scalar_val a + 7 - scalar_val b mod 7) mod 7" for a b
    by (simp add: model_backend_def scalar_of_nat_mod7)
  have add: "scalar_val (add_mod_order model_backend a b)
      = (scalar_val a + scalar_val b) mod 7" for a b
    by (simp add: model_backend_def scalar_of_nat_mod7)
  have co: "scalar_val (curve_order model_backend) = 7"
    by (simp add: model_backend_def)
  show ?thesis
    unfolding mod_arith_ok_def in_range_def model_order_val
    by (intro conjI allI impI) (simp_all add: sub add co sub7)
qed

lemma inv7: "x < 7 \<Longrightarrow> x \<noteq> 0 \<Longrightarrow> (x ^ 5 * 4 mod 7) * x mod 7 = (4::nat)"
proof -
  assume "x < 7" "x \<noteq> 0"
  then have "x = 1 \<or> x = 2 \<or> x = 3 \<or> x = 4 \<or> x = 5 \<or> x = 6" by arith
  then show ?thesis by (elim disjE) simp_all
qed

lemma model_montgomery_ok: "montgomery_ok model_backend"
proof -
  have toM: "scalar_val (to_Montgomery model_backend a) = scalar_val a * 2 mod 7" for a
    by (simp add: model_backend_def scalar_of_nat_mod7)
  have fromM: "scalar_val (from_Montgomery model_backend a) = scalar_val a * 4 mod 7" for a
    by (simp add: model_backend_def scalar_of_nat_mod7)
  have mm: "scalar_val (Montgomery_multiply_mod_order model_backend a b)
      = scalar_val a * scalar_val b * 4 mod 7" for a b
    by (simp add: model_backend_def scalar_of_nat_mod7)
  have inv: "scalar_val (Montgomery_inversion_mod_order model_backend a)
      = (scalar_val a mod 7) ^ 5 * 4 mod 7" for a
    by (simp add: model_backend_def scalar_of_nat_mod7)
  have invr: "in_range model_backend (Montgomery_inversion_mod_order model_backend a)" for a
    by (simp add: in_range_def model_order_val inv)
  have "(2::nat) * 4 mod 7 = 1 \<and>
        (\<forall>a. in_range model_backend a \<longrightarrow>
           scalar_val (to_Montgomery model_backend a) = scalar_val a * 2 mod 7) \<and>
        (\<forall>a. in_range model_backend a \<longrightarrow>
           scalar_val (from_Montgomery model_backend a) = scalar_val a * 4 mod 7) \<and>
        (\<forall>a b. in_range model_backend a \<and> in_range model_backend b \<longrightarrow>
           scalar_val (Montgomery_multiply_mod_order model_backend a b) =
             scalar_val a * scalar_val b * 4 mod 7) \<and>
        (\<forall>a. in_range model_backend a \<and> scalar_val a \<noteq> 0 \<longrightarrow>
           in_range model_backend (Montgomery_inversion_mod_order model_backend a) \<and>
           scalar_val (Montgomery_inversion_mod_order model_backend a) * scalar_val a mod 7 =
             2 * 2 mod 7)"
    using inv7 by (simp add: toM fromM mm inv invr in_range_def model_order_val)
  then show ?thesis
    unfolding montgomery_ok_def model_order_val by blast
qed

section \<open>Multiplication and division through the Montgomery domain\<close>

lemma Scalar_mul_val:
  assumes M: "montgomery_ok bk" and a: "in_range bk a" and b: "in_range bk b"
  shows "scalar_val (Scalar_mul bk a b) = scalar_val a * scalar_val b mod order_val bk"
    and "in_range bk (Scalar_mul bk a b)"
proof -
  let ?L = "order_val bk"
  from M obtain R R' where RR: "R * R' mod ?L = 1"
    and toM: "\<And>x. in_range bk x \<Longrightarrow> scalar_val (to_Montgomery bk x) = scalar_val x * R mod ?L"
    and fromM: "\<And>x. in_range bk x \<Longrightarrow> scalar_val (from_Montgomery bk x) = scalar_val x * R' mod ?L"
    and mm: "\<And>x y. in_range bk x \<Longrightarrow> in_range bk y \<Longrightarrow>
          scalar_val (Montgomery_multiply_mod_order bk x y) = scalar_val x * scalar_val y * R' mod ?L"
    unfolding montgomery_ok_def by blast
  have Lpos: "0 < ?L" using a by (simp add: in_range_def)
  have ra: "in_range bk (to_Montgomery bk a)" using toM [OF a] Lpos by (simp add: in_range_def)
  have rb: "in_range bk (to_Montgomery bk b)" using toM [OF b] Lpos by (simp add: in_range_def)
  have rm: "in_range bk (Montgomery_multiply_mod_order bk (to_Montgomery bk a) (to_Montgomery bk b))"
    using mm [OF ra rb] Lpos by (simp add: in_range_def)
  have "scalar_val (Scalar_mul bk a b)
      = ((scalar_val a * R mod ?L) * (scalar_val b * R mod ?L) * R' mod ?L) * R' mod ?L"
    by (simp add: Scalar_mul_def Let_def fromM [OF rm] mm [OF ra rb] toM [OF a] toM [OF b])
  then show v: "scalar_val (Scalar_mul bk a b) = scalar_val a * scalar_val b mod ?L"
    by (simp only: mont_mul [OF RR])
  show "in_range bk (Scalar_mul bk a b)"
    using Lpos by (simp add: in_range_def v)
qed

lemma Scalar_div_val:
  assumes M: "montgomery_ok bk" and p: "in_range bk p" and b: "in_range bk b"
    and nz: "\<not> Scalar_isZero b"
  shows "\<exists>q. Scalar_div bk p b = Inr q \<and> in_range bk q \<and>
           (\<forall>A. scalar_val p = A * scalar_val b mod order_val bk
                \<longrightarrow> scalar_val q = A mod order_val bk)"
proof -
  let ?L = "order_val bk"
  from M obtain R R' where RR: "R * R' mod ?L = 1"
    and toM: "\<And>x. in_range bk x \<Longrightarrow> scalar_val (to_Montgomery bk x) = scalar_val x * R mod ?L"
    and fromM: "\<And>x. in_range bk x \<Longrightarrow> scalar_val (from_Montgomery bk x) = scalar_val x * R' mod ?L"
    and mm: "\<And>x y. in_range bk x \<Longrightarrow> in_range bk y \<Longrightarrow>
          scalar_val (Montgomery_multiply_mod_order bk x y) = scalar_val x * scalar_val y * R' mod ?L"
    and inv: "\<And>x. in_range bk x \<Longrightarrow> scalar_val x \<noteq> 0 \<Longrightarrow>
          in_range bk (Montgomery_inversion_mod_order bk x) \<and>
          scalar_val (Montgomery_inversion_mod_order bk x) * scalar_val x mod ?L = R * R mod ?L"
    unfolding montgomery_ok_def by blast
  let ?lt = "to_Montgomery bk p"
  let ?rt = "to_Montgomery bk b"
  let ?iv = "Montgomery_inversion_mod_order bk ?rt"
  let ?ret = "Montgomery_multiply_mod_order bk ?lt ?iv"
  let ?q = "from_Montgomery bk ?ret"
  have Lpos: "0 < ?L" using b by (simp add: in_range_def)
  have bnz: "scalar_val b \<noteq> 0" using nz by (simp add: Scalar_isZero_val)
  have bL: "scalar_val b < ?L" using b by (simp add: in_range_def)
  have rlt: "in_range bk ?lt" using toM [OF p] Lpos by (simp add: in_range_def)
  have rrt: "in_range bk ?rt" using toM [OF b] Lpos by (simp add: in_range_def)
  have rtnz: "scalar_val ?rt \<noteq> 0"
    using mont_nonzero [OF RR bL bnz] by (simp add: toM [OF b])
  have riv: "in_range bk ?iv"
    and iv: "scalar_val ?iv * scalar_val ?rt mod ?L = R * R mod ?L"
    using inv [OF rrt rtnz] by simp_all
  have rret: "in_range bk ?ret" using mm [OF rlt riv] Lpos by (simp add: in_range_def)
  have vq: "scalar_val ?q = ((scalar_val p * R mod ?L) * scalar_val ?iv * R' mod ?L) * R' mod ?L"
    by (simp add: fromM [OF rret] mm [OF rlt riv] toM [OF p])
  have rq: "in_range bk ?q" using Lpos by (simp add: in_range_def vq)
  have eq: "Scalar_div bk p b = Inr ?q" using nz by (simp add: Scalar_div_def Let_def)
  have "scalar_val ?q = A mod ?L" if "scalar_val p = A * scalar_val b mod ?L" for A
  proof -
    have "scalar_val ?iv * (scalar_val b * R mod ?L) mod ?L = R * R mod ?L"
      using iv by (simp add: toM [OF b])
    from mont_div [OF RR this, of A] show ?thesis
      by (simp add: vq that)
  qed
  with eq rq show ?thesis by blast
qed

lemma Scalar_invert_range:
  assumes M: "montgomery_ok bk" and b: "in_range bk b" and nz: "\<not> Scalar_isZero b"
  shows "\<exists>r. Scalar_invert bk b = Inr r \<and> in_range bk r"
proof -
  let ?L = "order_val bk"
  from M obtain R R' where RR: "R * R' mod ?L = 1"
    and toM: "\<And>x. in_range bk x \<Longrightarrow> scalar_val (to_Montgomery bk x) = scalar_val x * R mod ?L"
    and fromM: "\<And>x. in_range bk x \<Longrightarrow> scalar_val (from_Montgomery bk x) = scalar_val x * R' mod ?L"
    and inv: "\<And>x. in_range bk x \<Longrightarrow> scalar_val x \<noteq> 0 \<Longrightarrow>
          in_range bk (Montgomery_inversion_mod_order bk x) \<and>
          scalar_val (Montgomery_inversion_mod_order bk x) * scalar_val x mod ?L = R * R mod ?L"
    unfolding montgomery_ok_def by blast
  let ?rt = "to_Montgomery bk b"
  let ?iv = "Montgomery_inversion_mod_order bk ?rt"
  have Lpos: "0 < ?L" using b by (simp add: in_range_def)
  have bnz: "scalar_val b \<noteq> 0" using nz by (simp add: Scalar_isZero_val)
  have bL: "scalar_val b < ?L" using b by (simp add: in_range_def)
  have rrt: "in_range bk ?rt" using toM [OF b] Lpos by (simp add: in_range_def)
  have rtnz: "scalar_val ?rt \<noteq> 0"
    using mont_nonzero [OF RR bL bnz] by (simp add: toM [OF b])
  have riv: "in_range bk ?iv" using inv [OF rrt rtnz] by simp
  have "in_range bk (from_Montgomery bk ?iv)"
    using fromM [OF riv] Lpos by (simp add: in_range_def)
  then show ?thesis using nz by (simp add: Scalar_invert_def Let_def)
qed

lemma Scalar_isZero_iff: "Scalar_isZero s \<longleftrightarrow> s = Scalar_getZero"
  by (cases s) (auto simp: Scalar_isZero_def Scalar_getZero_def Scalar_of_uint32_def)

lemma model_small_in_range:
  "unat v < 7 \<Longrightarrow> in_range model_backend (Scalar_of_uint32 v)"
  by (simp add: in_range_def model_order_val Scalar_of_uint32_def unsigned_ucast_eq take_bit_nat_eq_self)

section \<open>The reference backend: points\<close>

lemma zero_affine_model: "zero_affine = model_affine 0"
  by (simp add: zero_affine_def model_affine_def fp2zero1271_def)

lemma model_index_affine: "k < 7 \<Longrightarrow> model_index (model_affine k) = k"
  by (simp add: model_index_def model_affine_def unat_of_nat)

lemma model_setup_norm: "k < 7 \<Longrightarrow> setup_norm_ok model_backend (model_affine k)"
  by (simp add: setup_norm_ok_def model_backend_def model_index_affine)

lemma model_affine_inj: "j < 7 \<Longrightarrow> k < 7 \<Longrightarrow> model_affine j = model_affine k \<Longrightarrow> j = k"
  using model_index_affine by metis

section \<open>Hexadecimal strings: encoding then decoding\<close>

lemma hex_digit_val_hex_char: "d < 16 \<Longrightarrow> hex_digit_val (hex_char d) = Some d"
  by (auto simp: hex_digit_val_def hex_char_def Let_def)

lemma is_hex_digit_hex_char: "d < 16 \<Longrightarrow> is_hex_digit (hex_char d)"
  by (simp add: is_hex_digit_def hex_digit_val_hex_char)

lemma hex_digit_nat_hex_char: "d < 16 \<Longrightarrow> hex_digit_nat (hex_char d) = d"
  by (simp add: hex_digit_nat_def hex_digit_val_hex_char)

lemma from_chars_two_digits:
  assumes "is_hex_digit c1" "is_hex_digit c2"
  shows "from_chars [c1, c2] = (2, errc_ok, 16 * hex_digit_nat c1 + hex_digit_nat c2)"
proof -
  have b: "hex_digit_nat c < 16" for c
    by (auto simp: hex_digit_nat_def hex_digit_val_def Let_def split: option.splits if_splits)
  have "16 * hex_digit_nat c1 + hex_digit_nat c2 \<le> 255"
    using b [of c1] b [of c2] by arith
  then show ?thesis using assms by (simp add: from_chars_def Let_def)
qed

lemma from_chars_byte:
  fixes b :: uint8_t
  shows "from_chars [hex_char (unat b div 16), hex_char (unat b mod 16)] = (2, errc_ok, unat b)"
proof -
  have "unat b < 256" using unsigned_less [of b, where 'a = nat] by simp
  then have d: "unat b div 16 < 16" by simp
  have m: "unat b mod 16 < 16" by simp
  show ?thesis
    by (simp add: from_chars_two_digits is_hex_digit_hex_char hex_digit_nat_hex_char d m)
qed

lemma hex_pairs_roundtrip: "hex_pairs (bytes_to_hex_string bs) = Inr bs"
proof (induction bs)
  case Nil
  then show ?case by (simp add: bytes_to_hex_string_def)
next
  case (Cons b bs)
  have "bytes_to_hex_string (b # bs)
      = hex_char (unat b div 16) # hex_char (unat b mod 16) # bytes_to_hex_string bs"
    by (simp add: bytes_to_hex_string_def)
  then show ?case using Cons.IH by (simp add: from_chars_byte)
qed

lemma length_bytes_to_hex_string: "length (bytes_to_hex_string bs) = 2 * length bs"
  by (induction bs) (simp_all add: bytes_to_hex_string_def)

lemma hex_string_roundtrip: "hex_string_to_bytes (bytes_to_hex_string bs) = Inr bs"
  by (simp add: hex_string_to_bytes_def length_bytes_to_hex_string hex_pairs_roundtrip)

lemma length_reverse_bytes: "length (reverse_bytes bs) = 32"
  by (simp add: reverse_bytes_def)

lemma reverse_bytes_rev: "length bs = 32 \<Longrightarrow> reverse_bytes bs = rev bs"
  by (rule nth_equalityI) (simp_all add: reverse_bytes_def rev_nth del: upt_Suc)

lemma reverse_bytes_involution: "length bs = 32 \<Longrightarrow> reverse_bytes (reverse_bytes bs) = bs"
  by (simp add: reverse_bytes_rev)

lemma model_valid_point: "k < 7 \<Longrightarrow> valid_point model_backend k"
proof -
  assume k: "k < 7"
  have "ucast (of_nat k :: felm_t) = (of_nat k :: uint8_t)"
    using k by (simp add: word_unat_eq_iff unsigned_ucast_eq unat_of_nat take_bit_nat_eq_self)
  then have enc: "encode model_backend (model_affine k) = of_nat k # replicate 31 0"
    by (simp add: model_backend_def model_affine_def)
  have u: "unat (of_nat k :: uint8_t) = k" using k by (simp add: unat_of_nat)
  have dec: "model_decode (of_nat k # replicate 31 0) = (ECCRYPTO_SUCCESS, model_affine k)"
    using k by (simp add: model_decode_def u list_all_iff)
  have sel: "eccnorm model_backend = model_affine" "point_setup model_backend = model_index"
    "decode model_backend = model_decode" "ecc_point_validate model_backend = (\<lambda>e. e < 7)"
    by (simp_all add: model_backend_def)
  show ?thesis
    using k by (simp add: valid_point_def Let_def sel enc dec model_index_affine ECC_KEY_LENGTH_def)
qed

lemma model_fields:
  "decode model_backend = model_decode"
  "point_setup model_backend = model_index"
  "eccnorm model_backend = model_affine"
  "ecc_point_validate model_backend = (\<lambda>e. e < 7)"
  by (simp_all add: model_backend_def)

lemma hex_chars:
  "hex_char 0 = CHR ''0''" "hex_char (Suc 0) = CHR ''1''" "hex_char 3 = CHR ''3''"
  "hex_char 8 = CHR ''8''" "hex_char 9 = CHR ''9''"
  unfolding hex_char_def
  by (simp_all flip: of_char_eq_iff [where ?'a = nat])

lemma hex_0103:
  "''0000000000000000000000000000000000000000000000000000000000000103''
     = bytes_to_hex_string (reverse_bytes (3 # 1 # replicate 30 0))"
  by (simp add: bytes_to_hex_string_def reverse_bytes_def hex_chars upt_rec nth_Cons')

lemma hex_0009:
  "''0000000000000000000000000000000000000000000000000000000000000009''
     = bytes_to_hex_string (reverse_bytes (9 # replicate 31 0))"
  by (simp add: bytes_to_hex_string_def reverse_bytes_def hex_chars upt_rec nth_Cons')

section \<open>Hexadecimal strings: decoding any string\<close>

lemma hex_digit_nat_less: "hex_digit_nat c < 16"
  by (auto simp: hex_digit_nat_def hex_digit_val_def Let_def split: option.splits if_splits)

lemma from_chars_first_bad: "\<not> is_hex_digit c1 \<Longrightarrow> from_chars [c1, c2] = (0, errc_invalid_argument, 0)"
  by (simp add: from_chars_def)

lemma from_chars_second_bad:
  "is_hex_digit c1 \<Longrightarrow> \<not> is_hex_digit c2 \<Longrightarrow> from_chars [c1, c2] = (1, errc_ok, hex_digit_nat c1)"
  using hex_digit_nat_less [of c1] by (simp add: from_chars_def)

lemma hex_pairs_step:
  "hex_pairs (c1 # c2 # rest) =
     (if is_hex_digit c1 \<and> is_hex_digit c2
      then (case hex_pairs rest of
              Inl e \<Rightarrow> Inl e
            | Inr bs \<Rightarrow> Inr (of_nat (16 * hex_digit_nat c1 + hex_digit_nat c2) # bs))
      else Inl FormatError)"
  by (cases "is_hex_digit c1"; cases "is_hex_digit c2")
     (simp_all add: from_chars_two_digits from_chars_first_bad from_chars_second_bad)

declare hex_pairs.simps(1) [simp del]

lemma le_nat_Cons: "le_nat (b # bs) = unat b + 256 * le_nat bs"
  by (simp add: le_nat_def)

lemma hex_pairs_good:
  "even (length s) \<Longrightarrow> list_all is_hex_digit s \<Longrightarrow>
   \<exists>bs. hex_pairs s = Inr bs \<and> 2 * length bs = length s \<and> le_nat bs = hex_le_value s"
proof (induction s rule: hex_le_value.induct)
  case (3 c1 c2 rest)
  from "3.prems" have h: "is_hex_digit c1" "is_hex_digit c2"
    and r: "even (length rest)" "list_all is_hex_digit rest" by simp_all
  have fc: "from_chars [c1, c2] = (2, errc_ok, 16 * hex_digit_nat c1 + hex_digit_nat c2)"
    using h by (rule from_chars_two_digits)
  from "3.IH" [OF r]
  obtain bs where bs: "hex_pairs rest = Inr bs" "2 * length bs = length rest"
    "le_nat bs = hex_le_value rest" by auto
  have "16 * hex_digit_nat c1 + hex_digit_nat c2 < 256"
    using hex_digit_nat_less [of c1] hex_digit_nat_less [of c2] by arith
  then have u: "unat (of_nat (16 * hex_digit_nat c1 + hex_digit_nat c2) :: uint8_t)
      = 16 * hex_digit_nat c1 + hex_digit_nat c2"
    by (simp add: unat_of_nat del: of_nat_add of_nat_mult)
  show ?case
    using h bs u by (simp add: hex_pairs_step le_nat_Cons)
next
  case 1
  then show ?case by (simp add: le_nat_def)
next
  case (2 c)
  then show ?case by simp
qed

lemma hex_pairs_bad:
  "even (length s) \<Longrightarrow> \<not> list_all is_hex_digit s \<Longrightarrow> hex_pairs s = Inl FormatError"
proof (induction s rule: hex_le_value.induct)
  case (3 c1 c2 rest)
  show ?case
  proof (cases "is_hex_digit c1 \<and> is_hex_digit c2")
    case True
    then have fc: "from_chars [c1, c2] = (2, errc_ok, 16 * hex_digit_nat c1 + hex_digit_nat c2)"
      by (simp add: from_chars_two_digits)
    from True "3.prems" have r: "even (length rest)" "\<not> list_all is_hex_digit rest" by simp_all
    from "3.IH" [OF r]
    have "hex_pairs rest = Inl FormatError" by simp
    with True show ?thesis by (simp add: hex_pairs_step)
  next
    case False
    then show ?thesis by (auto simp: hex_pairs_step)
  qed
next
  case 1
  then show ?case by simp
next
  case (2 c)
  then show ?case by simp
qed

section \<open>Bytes to digits\<close>

lemma le_nat_append: "le_nat (xs @ ys) = le_nat xs + 256 ^ length xs * le_nat ys"
  by (induction xs) (simp_all add: le_nat_Cons le_nat_def algebra_simps)

lemma le_nat_less: "le_nat bs < 256 ^ length bs"
proof (induction bs)
  case Nil
  then show ?case by (simp add: le_nat_def)
next
  case (Cons b bs)
  have "unat b < 256" using unsigned_less [of b, where 'a = nat] by simp
  moreover have "le_nat bs + 1 \<le> 256 ^ length bs" using Cons.IH by simp
  then have "256 * (le_nat bs + 1) \<le> 256 * 256 ^ length bs" by (rule mult_le_mono2)
  ultimately show ?case by (simp add: le_nat_Cons)
qed

lemma M64_u64_val: "length bs \<le> 8 \<Longrightarrow> unat (M64_u64 bs) = le_nat bs"
proof -
  assume l: "length bs \<le> 8"
  have "le_nat bs < 256 ^ length bs" by (rule le_nat_less)
  also have "(256::nat) ^ length bs \<le> 256 ^ 8" using l by (rule power_increasing) simp
  finally have "le_nat bs < 2 ^ 64" by simp
  then show ?thesis by (simp add: M64_u64_def unat_of_nat)
qed

lemma toWords_val: "length b = 32 \<Longrightarrow> scalar_val (toWords b) = le_nat b"
proof -
  assume l: "length b = 32"
  let ?c0 = "take 8 b" and ?c1 = "take 8 (drop 8 b)"
  let ?c2 = "take 8 (drop 16 b)" and ?c3 = "take 8 (drop 24 b)"
  have split: "b = ?c0 @ ?c1 @ ?c2 @ ?c3"
  proof -
    have "b = take 8 b @ drop 8 b" by simp
    also have "drop 8 b = take 8 (drop 8 b) @ drop 16 b" 
      by (metis append_take_drop_id drop_drop numeral_Bit0 add.commute) 
    also have "drop 16 b = take 8 (drop 16 b) @ drop 24 b"
      using append_take_drop_id [of 8 "drop 16 b"] by simp
    also have "drop 24 b = take 8 (drop 24 b)" using l by simp
    finally show ?thesis .
  qed
  have len: "length ?c0 = 8" "length ?c1 = 8" "length ?c2 = 8" "length ?c3 = 8"
    using l by simp_all
  have "le_nat b = le_nat (?c0 @ ?c1 @ ?c2 @ ?c3)" using split by simp
  also have "\<dots> = le_nat ?c0 + 2 ^ 64 * le_nat ?c1 + 2 ^ 128 * le_nat ?c2 + 2 ^ 192 * le_nat ?c3"
    by (simp only: le_nat_append len) simp
  finally show ?thesis
    using len by (simp add: toWords_def M64_u64_val)
qed

section \<open>The reference backend meets the group contract\<close>

lemma smul_Suc: "smul (Suc n) g = g + smul n g"
  by (simp add: smul_def)

lemma smul_ring: "smul n (g::'a::ring_1) = of_nat n * g"
  by (induction n) (simp_all add: smul_Suc smul_def algebra_simps)

lemma of_nat_mod7: "(of_nat (n mod 7) :: 7) = of_nat n"
  by (simp add: bit1.of_nat_eq zmod_int)

lemma of_nat_7_inj: "j < 7 \<Longrightarrow> k < 7 \<Longrightarrow> (of_nat j :: 7) = of_nat k \<Longrightarrow> j = k"
proof -
  assume j: "j < 7" and k: "k < 7" and e: "(of_nat j :: 7) = of_nat k"
  have "Rep_bit1 (of_nat j :: 7) = Rep_bit1 (of_nat k :: 7)" using e by simp
  then have "int j mod 7 = int k mod 7"
    by (simp add: bit1.of_nat_eq Abs_bit1_inverse)
  then show "j = k" using j k by simp
qed

lemma model_group_ok: "group_backend_ok model_backend model_den model_ok"
proof -
  have f: "eccset model_backend = model_affine 1"
    "ecc_mul_fixed model_backend = (\<lambda>k. Some (model_affine (scalar_val k mod 7)))"
    "ecc_mul model_backend = (\<lambda>pa k clear_cofactor.
        if model_index pa < 7 then Some (model_affine (scalar_val k * model_index pa mod 7))
        else None)"
    "ecc_mul_double model_backend = (\<lambda>k pa l.
        if model_index pa < 7
        then Some (model_affine ((scalar_val k + scalar_val l * model_index pa) mod 7))
        else None)"
    "R1_to_R2 model_backend = (\<lambda>e. e)"
    "eccadd model_backend = (\<lambda>p e. (p + e) mod 7)"
    by (simp_all add: model_backend_def)
  have idx: "model_index (model_affine (n mod 7)) = n mod 7" for n
    by (rule model_index_affine) simp
  have g: "model_ok (point_setup model_backend (eccset model_backend))"
    by (simp add: f model_fields model_ok_def model_index_affine)
  have denG: "model_den (point_setup model_backend (eccset model_backend)) = 1"
    by (simp add: f model_fields model_den_def model_index_affine)
  have fx: "\<forall>k. \<exists>Q. ecc_mul_fixed model_backend k = Some Q \<and>
        model_ok (point_setup model_backend Q) \<and>
        model_den (point_setup model_backend Q) =
          smul (scalar_val k) (model_den (point_setup model_backend (eccset model_backend)))"
    unfolding denG
    by (simp add: f(2) model_fields model_ok_def model_den_def idx smul_ring of_nat_mod7)
  have vb: "\<forall>P k. model_ok P \<longrightarrow>
        (\<exists>Q. ecc_mul model_backend (eccnorm model_backend P) k False = Some Q \<and>
           model_ok (point_setup model_backend Q) \<and>
           model_den (point_setup model_backend Q) = smul (scalar_val k) (model_den P))"
    by (simp add: f(3) model_fields model_ok_def model_den_def model_index_affine idx smul_ring
        of_nat_mod7)
  have db: "\<forall>P k l. model_ok P \<longrightarrow>
        (\<exists>Q. ecc_mul_double model_backend k (eccnorm model_backend P) l = Some Q \<and>
           model_ok (point_setup model_backend Q) \<and>
           model_den (point_setup model_backend Q) =
             smul (scalar_val k) (model_den (point_setup model_backend (eccset model_backend)))
               + smul (scalar_val l) (model_den P))"
    unfolding denG
    by (simp add: f(4) model_fields model_ok_def model_den_def model_index_affine idx smul_ring
        of_nat_mod7)
  have ad: "\<forall>P Q. model_ok P \<and> model_ok Q \<longrightarrow>
        model_ok (eccadd model_backend (R1_to_R2 model_backend Q) P) \<and>
        model_den (eccadd model_backend (R1_to_R2 model_backend Q) P) = model_den P + model_den Q"
    by (simp add: f(5,6) model_ok_def model_den_def of_nat_mod7)
  have en: "\<forall>P Q. model_ok P \<and> model_ok Q \<and> model_den P = model_den Q \<longrightarrow>
        encode model_backend (eccnorm model_backend P) = encode model_backend (eccnorm model_backend Q)"
    using of_nat_7_inj by (auto simp: model_ok_def model_den_def)
  show ?thesis
    unfolding group_backend_ok_def using g fx vb db ad en by (intro conjI)
qed

section \<open>Consequences of the group contract for the wrapper\<close>

lemma group_backend_okD:
  assumes "group_backend_ok bk den ok"
  shows "ok (point_setup bk (eccset bk))"
    and "\<forall>k. \<exists>Q. ecc_mul_fixed bk k = Some Q \<and> ok (point_setup bk Q) \<and>
          den (point_setup bk Q) = smul (scalar_val k) (den (point_setup bk (eccset bk)))"
    and "\<forall>P k. ok P \<longrightarrow>
          (\<exists>Q. ecc_mul bk (eccnorm bk P) k False = Some Q \<and> ok (point_setup bk Q) \<and>
             den (point_setup bk Q) = smul (scalar_val k) (den P))"
    and "\<forall>P k l. ok P \<longrightarrow>
          (\<exists>Q. ecc_mul_double bk k (eccnorm bk P) l = Some Q \<and> ok (point_setup bk Q) \<and>
             den (point_setup bk Q) =
               smul (scalar_val k) (den (point_setup bk (eccset bk))) + smul (scalar_val l) (den P))"
    and "\<forall>P Q. ok P \<and> ok Q \<longrightarrow>
          ok (eccadd bk (R1_to_R2 bk Q) P) \<and> den (eccadd bk (R1_to_R2 bk Q) P) = den P + den Q"
    and "\<forall>P Q. ok P \<and> ok Q \<and> den P = den Q \<longrightarrow>
          encode bk (eccnorm bk P) = encode bk (eccnorm bk Q)"
proof -
  note c = assms [unfolded group_backend_ok_def]
  show "ok (point_setup bk (eccset bk))"
    by (rule c [THEN conjunct1])
  show "\<forall>k. \<exists>Q. ecc_mul_fixed bk k = Some Q \<and> ok (point_setup bk Q) \<and>
          den (point_setup bk Q) = smul (scalar_val k) (den (point_setup bk (eccset bk)))"
    by (rule c [THEN conjunct2, THEN conjunct1])
  show "\<forall>P k. ok P \<longrightarrow>
          (\<exists>Q. ecc_mul bk (eccnorm bk P) k False = Some Q \<and> ok (point_setup bk Q) \<and>
             den (point_setup bk Q) = smul (scalar_val k) (den P))"
    by (rule c [THEN conjunct2, THEN conjunct2, THEN conjunct1])
  show "\<forall>P k l. ok P \<longrightarrow>
          (\<exists>Q. ecc_mul_double bk k (eccnorm bk P) l = Some Q \<and> ok (point_setup bk Q) \<and>
             den (point_setup bk Q) =
               smul (scalar_val k) (den (point_setup bk (eccset bk))) + smul (scalar_val l) (den P))"
    by (rule c [THEN conjunct2, THEN conjunct2, THEN conjunct2, THEN conjunct1])
  show "\<forall>P Q. ok P \<and> ok Q \<longrightarrow>
          ok (eccadd bk (R1_to_R2 bk Q) P) \<and> den (eccadd bk (R1_to_R2 bk Q) P) = den P + den Q"
    by (rule c [THEN conjunct2, THEN conjunct2, THEN conjunct2, THEN conjunct2, THEN conjunct1])
  show "\<forall>P Q. ok P \<and> ok Q \<and> den P = den Q \<longrightarrow>
          encode bk (eccnorm bk P) = encode bk (eccnorm bk Q)"
    by (rule c [THEN conjunct2, THEN conjunct2, THEN conjunct2, THEN conjunct2, THEN conjunct2])
qed

lemma Point_mulBase_den:
  assumes "group_backend_ok bk den ok"
  shows "\<exists>B. Point_mulBase bk k = Inr B \<and> ok B \<and>
             den B = smul (scalar_val k) (den (Point_getBase bk))"
proof -
  from group_backend_okD(2) [OF assms] obtain Q where "ecc_mul_fixed bk k = Some Q"
    "ok (point_setup bk Q)"
    "den (point_setup bk Q) = smul (scalar_val k) (den (point_setup bk (eccset bk)))"
    by meson
  then show ?thesis by (simp add: Point_mulBase_def Point_getBase_def)
qed

lemma Point_mul_den:
  assumes "group_backend_ok bk den ok" and "ok P"
  shows "\<exists>A. Point_mul bk k P = Inr A \<and> ok A \<and> den A = smul (scalar_val k) (den P)"
proof -
  from group_backend_okD(3) [OF assms(1)] assms(2)
  obtain Q where "ecc_mul bk (eccnorm bk P) k False = Some Q" "ok (point_setup bk Q)"
    "den (point_setup bk Q) = smul (scalar_val k) (den P)"
    by meson
  then show ?thesis by (simp add: Point_mul_def Point_mul_assign_def)
qed

lemma Point_MulAdd_den:
  assumes "group_backend_ok bk den ok" and "ok P"
  shows "\<exists>R. Point_MulAdd bk P k l = Inr R \<and> ok R \<and>
             den R = smul (scalar_val k) (den (Point_getBase bk)) + smul (scalar_val l) (den P)"
proof -
  from group_backend_okD(4) [OF assms(1)] assms(2)
  obtain Q where "ecc_mul_double bk k (eccnorm bk P) l = Some Q"
    "ok (point_setup bk Q)"
    "den (point_setup bk Q) =
       smul (scalar_val k) (den (point_setup bk (eccset bk))) + smul (scalar_val l) (den P)"
    by meson
  then show ?thesis by (simp add: Point_MulAdd_def Point_getBase_def)
qed

lemma Point_add_den:
  assumes "group_backend_ok bk den ok" and "ok P" and "ok Q"
  shows "ok (Point_add bk P Q) \<and> den (Point_add bk P Q) = den P + den Q"
  using group_backend_okD(5) [OF assms(1), THEN spec, THEN spec, of P Q] assms(2,3)
  unfolding Point_add_def Point_add_assign_def by (elim impE conjE) (intro conjI, assumption+)+

lemma Point_getRaw_den:
  assumes "group_backend_ok bk den ok" and "ok P" and "ok Q" and "den P = den Q"
  shows "Point_getRaw bk P = Point_getRaw bk Q"
  using group_backend_okD(6) [OF assms(1), THEN spec, THEN spec, of P Q] assms(2,3,4)
  unfolding Point_getRaw_def by (elim impE) (intro conjI, assumption+)+

lemma Point_getBase_ok: "group_backend_ok bk den ok \<Longrightarrow> ok (Point_getBase bk)"
  by (simp add: group_backend_okD(1) Point_getBase_def)

lemma hex_08:
  "is_hex_digit CHR ''0''" "is_hex_digit CHR ''8''"
  "hex_digit_nat CHR ''0'' = 0" "hex_digit_nat CHR ''8'' = 8"
  by (simp_all add: is_hex_digit_def hex_digit_nat_def hex_digit_val_def)

section \<open>The range of the scalar operations\<close>

lemma Scalar_add_range:
  assumes "mod_arith_ok bk" "in_range bk a" "in_range bk b"
  shows "in_range bk (Scalar_add bk a b)"
proof -
  have Lpos: "0 < order_val bk" using assms(2) by (simp add: in_range_def)
  have "scalar_val (add_mod_order bk a b) = (scalar_val a + scalar_val b) mod order_val bk"
    using assms(1) [unfolded mod_arith_ok_def, THEN conjunct1, rule_format, of a b] assms(2,3)
    by simp
  then show ?thesis using Lpos by (simp add: in_range_def Scalar_add_def)
qed

lemma Scalar_sub_range:
  assumes "mod_arith_ok bk" "in_range bk a" "in_range bk b"
  shows "in_range bk (Scalar_sub bk a b)"
proof -
  have Lpos: "0 < order_val bk" using assms(2) by (simp add: in_range_def)
  have "scalar_val (subtract_mod_order bk a b)
      = (scalar_val a + order_val bk - scalar_val b) mod order_val bk"
    using assms(1) [unfolded mod_arith_ok_def, THEN conjunct2, THEN conjunct1, rule_format, of a b]
      assms(2,3)
    by simp
  then show ?thesis using Lpos by (simp add: in_range_def Scalar_sub_def)
qed

lemma Scalar_negate_range:
  assumes "mod_arith_ok bk" "in_range bk a"
  shows "in_range bk (Scalar_negate bk a)"
proof (cases "Scalar_isZero a")
  case True
  then show ?thesis using assms(2)
    by (simp add: Scalar_negate_def in_range_def Scalar_of_uint32_def)
next
  case False
  then have nz: "scalar_val a \<noteq> 0" by (simp add: Scalar_isZero_val)
  have "scalar_val (subtract_mod_order bk (curve_order bk) a) = order_val bk - scalar_val a"
    using assms(1) [unfolded mod_arith_ok_def, THEN conjunct2, THEN conjunct2, rule_format, of a]
      assms(2) nz
    by simp
  then show ?thesis using False nz assms(2) by (simp add: in_range_def Scalar_negate_def)
qed

lemma modulo_order_range: "modulo_order_ok bk \<Longrightarrow> in_range bk (modulo_order bk x)"
  by (simp add: modulo_order_ok_def in_range_def)

lemma Scalar_fromString_range:
  "modulo_order_ok bk \<Longrightarrow> Scalar_fromString bk ins = Inr s \<Longrightarrow> in_range bk s"
  by (auto simp: Scalar_fromString_def modulo_order_range split: if_splits sum.splits)

lemma unat_ucast_u32:
  fixes v :: uint32_t
  shows "unat (ucast v :: digit_t) = unat v"
proof -
  have "unat v < 2 ^ 32" using unsigned_less [of v, where 'a = nat] by simp
  then have "unat v < 2 ^ 64" by simp
  then show ?thesis by (simp add: unsigned_ucast_eq take_bit_nat_eq_self)
qed

section \<open>Point::fromString on well-formed strings\<close>

text \<open>On a string of 64 hexadecimal digits the outcome of \<^verbatim>\<open>Point::fromString\<close> is decided
  by \<^verbatim>\<open>ecc_point_validate\<close> alone: the status returned by \<^verbatim>\<open>decode\<close> does not occur in
  it, and the receiver is overwritten whether validation passes or not.\<close>

lemma Point_fromString_well_formed:
  assumes "length str = 64" and "list_all is_hex_digit str"
  shows "\<exists>btmp. hex_string_to_bytes str = Inr btmp \<and> length btmp = 32 \<and>
           Point_fromString bk str this =
             (if ecc_point_validate bk (point_setup bk (snd (decode bk (reverse_bytes btmp))))
              then None else Some ValidationError,
              point_setup bk (snd (decode bk (reverse_bytes btmp))))"
proof -
  from assms(1) have ev: "even (length str)" by simp
  from hex_pairs_good [OF ev assms(2)] obtain btmp where b: "hex_pairs str = Inr btmp"
    "2 * length btmp = length str" by blast
  have h: "hex_string_to_bytes str = Inr btmp"
    using assms(1) b(1) by (simp add: hex_string_to_bytes_def)
  have l: "length btmp = 32" using b(2) assms(1) by simp
  have "Point_fromString bk str this =
      (if ecc_point_validate bk (point_setup bk (snd (decode bk (reverse_bytes btmp))))
       then None else Some ValidationError,
       point_setup bk (snd (decode bk (reverse_bytes btmp))))"
    using assms(1) by (simp add: Point_fromString_def ECC_KEY_LENGTH_def h Let_def)
  with h l show ?thesis by blast
qed

section \<open>The claims\<close>

text \<open>Claim C1. For every valid point \<open>P\<close>, \<^verbatim>\<open>Point::fromString\<close> applied to
  \<^verbatim>\<open>P.toString()\<close> succeeds and stores a point with the same raw encoding as \<open>P\<close>. The
  hexadecimal string decodes to the reversed raw bytes, and the reversal made by
  \<^verbatim>\<open>fromString\<close> undoes the one made by \<^verbatim>\<open>toString\<close>, so the backend decodes exactly
  \<^verbatim>\<open>P.getRaw()\<close>.\<close>

theorem point_string_roundtrip:
  assumes "valid_point bk P"
  shows "hex_string_to_bytes (Point_toString bk P) = Inr (reverse_bytes (Point_getRaw bk P)) \<and>
         reverse_bytes (reverse_bytes (Point_getRaw bk P)) = Point_getRaw bk P \<and>
         (\<exists>P'. Point_fromString bk (Point_toString bk P) this = (None, P') \<and>
                Point_getRaw bk P' = Point_getRaw bk P)"
proof -
  let ?pa = "eccnorm bk P"
  let ?raw = "Point_getRaw bk P"
  from assms have len: "length ?raw = 32"
    and dec: "decode bk ?raw = (ECCRYPTO_SUCCESS, ?pa)"
    and val: "ecc_point_validate bk (point_setup bk ?pa)"
    and norm: "eccnorm bk (point_setup bk ?pa) = ?pa"
    by (simp_all add: valid_point_def Let_def Point_getRaw_def ECC_KEY_LENGTH_def)
  have hex: "hex_string_to_bytes (Point_toString bk P) = Inr (reverse_bytes ?raw)"
    by (simp add: Point_toString_def hex_string_roundtrip)
  have inv: "reverse_bytes (reverse_bytes ?raw) = ?raw"
    using len by (rule reverse_bytes_involution)
  have slen: "length (Point_toString bk P) = 2 * ECC_KEY_LENGTH"
    by (simp add: Point_toString_def length_bytes_to_hex_string length_reverse_bytes
        ECC_KEY_LENGTH_def)
  have "Point_fromString bk (Point_toString bk P) this = (None, point_setup bk ?pa)"
    by (simp add: Point_fromString_def slen hex inv dec val Let_def)
  moreover have "Point_getRaw bk (point_setup bk ?pa) = ?raw"
    by (simp add: Point_getRaw_def norm)
  ultimately show ?thesis using hex inv by blast
qed

theorem point_string_roundtrip_witness:
  "valid_point model_backend 3 \<and>
   (\<exists>P'. Point_fromString model_backend (Point_toString model_backend 3) 0 = (None, P') \<and>
          Point_getRaw model_backend P' = Point_getRaw model_backend 3)"
proof -
  have v: "valid_point model_backend 3" by (rule model_valid_point) simp
  from point_string_roundtrip [OF v, of 0] v show ?thesis by blast
qed

text \<open>Claim C2, as amended. A scalar built from a 32-byte buffer, by \<^verbatim>\<open>fromString\<close> or by
  \<^verbatim>\<open>Sanitize\<close>, the zero scalar, and a scalar built from a 32-bit value below the order
  are in the range \<open>[0, L)\<close>; so are the results of \<open>+\<close>, \<open>-\<close>, \<open>*\<close>, \<open>/\<close>,
  \<^verbatim>\<open>invert\<close> and \<^verbatim>\<open>negate\<close> on operands in that range. \<^verbatim>\<open>Point::getOrder()\<close> returns
  the scalar whose value is \<open>L\<close> itself, which is not in the range.\<close>

theorem scalar_range_invariant:
  assumes "modulo_order_ok bk" and "mod_arith_ok bk" and "montgomery_ok bk"
  shows "in_range bk (Scalar_of_bytes bk raw) \<and>
         (\<forall>s. Scalar_fromString bk ins = Inr s \<longrightarrow> in_range bk s) \<and>
         in_range bk (Scalar_Sanitize bk c) \<and>
         in_range bk Scalar_getZero \<and>
         (unat v < order_val bk \<longrightarrow> in_range bk (Scalar_of_uint32 v)) \<and>
         (in_range bk a \<and> in_range bk b \<longrightarrow>
            in_range bk (Scalar_add bk a b) \<and>
            in_range bk (Scalar_sub bk a b) \<and>
            in_range bk (Scalar_mul bk a b) \<and>
            in_range bk (Scalar_negate bk a) \<and>
            (\<forall>q. Scalar_div bk a b = Inr q \<longrightarrow> in_range bk q) \<and>
            (\<forall>r. Scalar_invert bk a = Inr r \<longrightarrow> in_range bk r)) \<and>
         scalar_val (Point_getOrder bk) = order_val bk \<and>
         \<not> in_range bk (Point_getOrder bk)"
proof -
  have Lpos: "0 < order_val bk" using assms(1) by (simp add: modulo_order_ok_def)
  have c1: "in_range bk (Scalar_of_bytes bk raw)"
    by (simp add: Scalar_of_bytes_def modulo_order_range [OF assms(1)])
  have c2: "\<forall>s. Scalar_fromString bk ins = Inr s \<longrightarrow> in_range bk s"
    using Scalar_fromString_range [OF assms(1)] by blast
  have c3: "in_range bk (Scalar_Sanitize bk c)"
    by (simp add: Scalar_Sanitize_def modulo_order_range [OF assms(1)])
  have c4: "in_range bk Scalar_getZero"
    using Lpos by (simp add: Scalar_getZero_def Scalar_of_uint32_def in_range_def)
  have c5: "unat v < order_val bk \<longrightarrow> in_range bk (Scalar_of_uint32 v)"
    by (simp add: Scalar_of_uint32_def in_range_def unat_ucast_u32)
  have c6: "in_range bk a \<and> in_range bk b \<longrightarrow>
            in_range bk (Scalar_add bk a b) \<and>
            in_range bk (Scalar_sub bk a b) \<and>
            in_range bk (Scalar_mul bk a b) \<and>
            in_range bk (Scalar_negate bk a) \<and>
            (\<forall>q. Scalar_div bk a b = Inr q \<longrightarrow> in_range bk q) \<and>
            (\<forall>r. Scalar_invert bk a = Inr r \<longrightarrow> in_range bk r)"
  proof (intro impI, elim conjE)
    assume a: "in_range bk a" and b: "in_range bk b"
    have d: "\<forall>q. Scalar_div bk a b = Inr q \<longrightarrow> in_range bk q"
    proof (cases "Scalar_isZero b")
      case True
      then show ?thesis by (simp add: Scalar_div_def)
    next
      case False
      from Scalar_div_val [OF assms(3) a b False] show ?thesis by auto
    qed
    have i: "\<forall>r. Scalar_invert bk a = Inr r \<longrightarrow> in_range bk r"
    proof (cases "Scalar_isZero a")
      case True
      then show ?thesis by (simp add: Scalar_invert_def)
    next
      case False
      from Scalar_invert_range [OF assms(3) a False] show ?thesis by auto
    qed
    show "in_range bk (Scalar_add bk a b) \<and>
            in_range bk (Scalar_sub bk a b) \<and>
            in_range bk (Scalar_mul bk a b) \<and>
            in_range bk (Scalar_negate bk a) \<and>
            (\<forall>q. Scalar_div bk a b = Inr q \<longrightarrow> in_range bk q) \<and>
            (\<forall>r. Scalar_invert bk a = Inr r \<longrightarrow> in_range bk r)"
      using Scalar_add_range [OF assms(2) a b] Scalar_sub_range [OF assms(2) a b]
        Scalar_mul_val(2) [OF assms(3) a b] Scalar_negate_range [OF assms(2) a] d i
      by (intro conjI)
  qed
  have c7: "scalar_val (Point_getOrder bk) = order_val bk"
    by (simp add: Point_getOrder_def order_val_def)
  have c8: "\<not> in_range bk (Point_getOrder bk)"
    by (simp add: in_range_def c7)
  from c1 c2 c3 c4 c5 c6 c7 c8 show ?thesis by (intro conjI)
qed

theorem scalar_range_invariant_witness:
  "modulo_order_ok model_backend \<and> mod_arith_ok model_backend \<and> montgomery_ok model_backend \<and>
   in_range model_backend (Scalar_of_bytes model_backend (replicate 32 255)) \<and>
   in_range model_backend (Scalar_of_uint32 5) \<and>
   in_range model_backend (Scalar_of_uint32 3) \<and>
   in_range model_backend (Scalar_add model_backend (Scalar_of_uint32 5) (Scalar_of_uint32 3)) \<and>
   in_range model_backend (Scalar_sub model_backend (Scalar_of_uint32 5) (Scalar_of_uint32 3)) \<and>
   in_range model_backend (Scalar_mul model_backend (Scalar_of_uint32 5) (Scalar_of_uint32 3)) \<and>
   in_range model_backend (Scalar_negate model_backend (Scalar_of_uint32 5)) \<and>
   scalar_val (Point_getOrder model_backend) = order_val model_backend"
proof -
  have a: "in_range model_backend (Scalar_of_uint32 5)"
    by (rule model_small_in_range) simp
  have b: "in_range model_backend (Scalar_of_uint32 3)"
    by (rule model_small_in_range) simp
  note t = scalar_range_invariant [OF model_modulo_order_ok model_mod_arith_ok model_montgomery_ok,
      of "replicate 32 255" "[]" Scalar_getZero 0 "Scalar_of_uint32 5" "Scalar_of_uint32 3"]
  from t a b model_modulo_order_ok model_mod_arith_ok model_montgomery_ok
  show ?thesis by blast
qed

text \<open>Claim C2 as first stated fails. The reference backend meets the three scalar
  contracts, its order is 7, and
  \<^verbatim>\<open>Point::getOrder()\<close> has the value 7: the range \<open>[0, L)\<close> does not hold of every
  scalar a public operation returns.\<close>

theorem getOrder_out_of_range:
  "modulo_order_ok model_backend \<and> mod_arith_ok model_backend \<and>
   montgomery_ok model_backend \<and>
   scalar_val (Point_getOrder model_backend) = 7 \<and> order_val model_backend = 7 \<and>
   \<not> in_range model_backend (Point_getOrder model_backend)"
proof -
  have v: "scalar_val (Point_getOrder model_backend) = 7"
    by (simp add: Point_getOrder_def model_backend_def)
  have "\<not> in_range model_backend (Point_getOrder model_backend)"
    by (simp add: in_range_def v model_order_val)
  with v model_order_val model_modulo_order_ok model_mod_arith_ok model_montgomery_ok
  show ?thesis by (intro conjI)
qed

text \<open>Claim C3, on the reference backend. The raw bytes \<open>03 01 00 ... 00\<close> are rejected
  by \<^verbatim>\<open>decode\<close>, and the raw-buffer constructor throws. \<^verbatim>\<open>Point::fromString\<close> on the
  hexadecimal string of the same bytes reversed does not look at the status of \<^verbatim>\<open>decode\<close>:
  it validates what \<^verbatim>\<open>decode\<close> left behind and stores it. And on a string whose point
  fails validation it throws only after it has overwritten the receiver, which then holds
  the point that failed validation (here index 9) in place of its former value 5.\<close>

theorem fromString_skips_decode_status:
  "fst (decode model_backend (3 # 1 # replicate 30 0)) \<noteq> ECCRYPTO_SUCCESS \<and>
   Point_of_raw model_backend (3 # 1 # replicate 30 0) = Inl ValidationError \<and>
   Point_fromString model_backend
     ''0000000000000000000000000000000000000000000000000000000000000103'' 5 = (None, 3) \<and>
   Point_fromString model_backend
     ''0000000000000000000000000000000000000000000000000000000000000009'' 5
       = (Some ValidationError, 9)"
proof -
  have d1: "model_decode (3 # 1 # replicate 30 0) = (ECCRYPTO_ERROR 0, model_affine 3)"
    by (simp add: model_decode_def)
  have d2: "model_decode (9 # replicate 31 0) = (ECCRYPTO_ERROR 0, model_affine 9)"
    by (simp add: model_decode_def)
  have i3: "model_index (model_affine 3) = 3" by (rule model_index_affine) simp
  have i9: "model_index (model_affine 9) = 9"
    by (simp add: model_index_def model_affine_def)
  have l1: "length (3 # 1 # replicate 30 (0::uint8_t)) = 32" by simp
  have l2: "length (9 # replicate 31 (0::uint8_t)) = 32" by simp
  have a: "fst (decode model_backend (3 # 1 # replicate 30 0)) \<noteq> ECCRYPTO_SUCCESS"
    by (simp add: model_fields d1)
  have b: "Point_of_raw model_backend (3 # 1 # replicate 30 0) = Inl ValidationError"
    by (simp add: Point_of_raw_def model_fields d1)
  have c: "Point_fromString model_backend
     ''0000000000000000000000000000000000000000000000000000000000000103'' 5 = (None, 3)"
    unfolding hex_0103
    by (simp add: Point_fromString_def length_bytes_to_hex_string length_reverse_bytes
        ECC_KEY_LENGTH_def hex_string_roundtrip reverse_bytes_involution [OF l1]
        model_fields d1 i3 Let_def del: replicate_Suc)
  have d: "Point_fromString model_backend
     ''0000000000000000000000000000000000000000000000000000000000000009'' 5
       = (Some ValidationError, 9)"
    unfolding hex_0009
    by (simp add: Point_fromString_def length_bytes_to_hex_string length_reverse_bytes
        ECC_KEY_LENGTH_def hex_string_roundtrip reverse_bytes_involution [OF l2]
        model_fields d2 i9 Let_def del: replicate_Suc)
  from a b c d show ?thesis by blast
qed

text \<open>Claim C4. For every well-formed point \<open>P\<close> and all scalars \<open>mG\<close> and \<open>mP\<close>
  (any digits, zero included), \<^verbatim>\<open>P.MulAdd(mG, mP)\<close>, \<^verbatim>\<open>Point::mulBase(mG)\<close> and
  \<^verbatim>\<open>mP * P\<close> all succeed, and the result of \<^verbatim>\<open>MulAdd\<close> is equal, under
  \<^verbatim>\<open>operator==\<close> (equal raw encodings), to \<^verbatim>\<open>mulBase(mG) + mP * P\<close>.\<close>

theorem MulAdd_is_mulBase_plus_mul:
  assumes "group_backend_ok bk den ok" and "ok P"
  shows "\<exists>R B A. Point_MulAdd bk P mG mP = Inr R \<and>
           Point_mulBase bk mG = Inr B \<and> Point_mul bk mP P = Inr A \<and>
           Point_eq bk R (Point_add bk B A)"
proof -
  from Point_MulAdd_den [OF assms] obtain R where R: "Point_MulAdd bk P mG mP = Inr R" "ok R"
    "den R = smul (scalar_val mG) (den (Point_getBase bk)) + smul (scalar_val mP) (den P)"
    by blast
  from Point_mulBase_den [OF assms(1)] obtain B where B: "Point_mulBase bk mG = Inr B" "ok B"
    "den B = smul (scalar_val mG) (den (Point_getBase bk))" by blast
  from Point_mul_den [OF assms] obtain A where A: "Point_mul bk mP P = Inr A" "ok A"
    "den A = smul (scalar_val mP) (den P)" by blast
  from Point_add_den [OF assms(1) B(2) A(2)]
  have S: "ok (Point_add bk B A)" "den (Point_add bk B A) = den B + den A" by simp_all
  have "den R = den (Point_add bk B A)" by (simp add: R(3) S(2) B(3) A(3))
  from Point_getRaw_den [OF assms(1) R(2) S(1) this]
  have "Point_eq bk R (Point_add bk B A)" by (simp add: Point_eq_def)
  with R(1) B(1) A(1) show ?thesis by blast
qed

theorem MulAdd_is_mulBase_plus_mul_witness:
  "group_backend_ok model_backend model_den model_ok \<and> model_ok 3 \<and>
   (\<exists>R B A. Point_MulAdd model_backend 3 Scalar_getZero (Scalar_of_uint32 5) = Inr R \<and>
      Point_mulBase model_backend Scalar_getZero = Inr B \<and>
      Point_mul model_backend (Scalar_of_uint32 5) 3 = Inr A \<and>
      Point_eq model_backend R (Point_add model_backend B A))"
proof -
  have ok3: "model_ok 3" by (simp add: model_ok_def)
  from MulAdd_is_mulBase_plus_mul [OF model_group_ok ok3, of Scalar_getZero "Scalar_of_uint32 5"]
    model_group_ok ok3
  show ?thesis by blast
qed

text \<open>Claim C5. For every scalar \<open>a\<close>, \<^verbatim>\<open>Point::mulBase(a)\<close> and
  \<^verbatim>\<open>a * Point::getBase()\<close> both succeed and give points with the same raw encoding.\<close>

theorem mulBase_is_mul_of_base:
  assumes "group_backend_ok bk den ok"
  shows "\<exists>B M. Point_mulBase bk a = Inr B \<and> Point_mul bk a (Point_getBase bk) = Inr M \<and>
           Point_getRaw bk B = Point_getRaw bk M"
proof -
  from Point_mulBase_den [OF assms] obtain B where B: "Point_mulBase bk a = Inr B" "ok B"
    "den B = smul (scalar_val a) (den (Point_getBase bk))" by blast
  from Point_mul_den [OF assms Point_getBase_ok [OF assms]]
  obtain M where M: "Point_mul bk a (Point_getBase bk) = Inr M" "ok M"
    "den M = smul (scalar_val a) (den (Point_getBase bk))" by blast
  have "den B = den M" by (simp add: B(3) M(3))
  from Point_getRaw_den [OF assms B(2) M(2) this] B(1) M(1) show ?thesis by blast
qed

theorem mulBase_is_mul_of_base_witness:
  "group_backend_ok model_backend model_den model_ok \<and>
   (\<exists>B M. Point_mulBase model_backend (Scalar_of_uint32 5) = Inr B \<and>
      Point_mul model_backend (Scalar_of_uint32 5) (Point_getBase model_backend) = Inr M \<and>
      Point_getRaw model_backend B = Point_getRaw model_backend M)"
  using mulBase_is_mul_of_base [OF model_group_ok, of "Scalar_of_uint32 5"] model_group_ok
  by blast

text \<open>Claim C6. \<^verbatim>\<open>Scalar::fromString\<close> fails with a format error exactly when the
  input does not have 64 characters or has a character that is not a hexadecimal digit.
  On every string of 64 hexadecimal digits it succeeds, and the scalar stored is the
  little-endian value of the 32 bytes written by the string, reduced modulo the order;
  no such string is rejected for being too large.\<close>

theorem scalar_fromString_format:
  assumes "modulo_order_ok bk"
  shows "(Scalar_fromString bk ins = Inl FormatError \<longleftrightarrow>
            length ins \<noteq> 64 \<or> \<not> list_all is_hex_digit ins) \<and>
         (length ins = 64 \<and> list_all is_hex_digit ins \<longrightarrow>
            (\<exists>s. Scalar_fromString bk ins = Inr s \<and>
                 scalar_val s = hex_le_value ins mod order_val bk))"
proof (cases "length ins = 64")
  case False
  then show ?thesis by (simp add: Scalar_fromString_def ECC_KEY_LENGTH_def)
next
  case len: True
  then have ev: "even (length ins)" by simp
  show ?thesis
  proof (cases "list_all is_hex_digit ins")
    case True
    from hex_pairs_good [OF ev True] obtain bs where bs: "hex_pairs ins = Inr bs"
      "2 * length bs = length ins" "le_nat bs = hex_le_value ins" by blast
    from bs(2) len have l32: "length bs = 32" by simp
    have "Scalar_fromString bk ins = Inr (modulo_order bk (toWords bs))"
      using len bs(1) by (simp add: Scalar_fromString_def ECC_KEY_LENGTH_def hex_string_to_bytes_def)
    moreover have "scalar_val (modulo_order bk (toWords bs)) = hex_le_value ins mod order_val bk"
      using assms by (simp add: modulo_order_ok_def toWords_val [OF l32] bs(3))
    ultimately show ?thesis using True len by simp
  next
    case False
    from hex_pairs_bad [OF ev False] have "Scalar_fromString bk ins = Inl FormatError"
      using len by (simp add: Scalar_fromString_def ECC_KEY_LENGTH_def hex_string_to_bytes_def)
    then show ?thesis using False by simp
  qed
qed

theorem scalar_fromString_format_witness:
  "modulo_order_ok model_backend \<and>
   length ''0800000000000000000000000000000000000000000000000000000000000000'' = 64 \<and>
   list_all is_hex_digit ''0800000000000000000000000000000000000000000000000000000000000000'' \<and>
   (\<exists>s. Scalar_fromString model_backend
          ''0800000000000000000000000000000000000000000000000000000000000000'' = Inr s \<and>
        scalar_val s = 1) \<and>
   Scalar_fromString model_backend ''12345'' = Inl FormatError"
proof -
  let ?ins = "''0800000000000000000000000000000000000000000000000000000000000000''"
  have l: "length ?ins = 64" by simp
  have h: "list_all is_hex_digit ?ins" by (simp add: hex_08)
  have v: "hex_le_value ?ins mod order_val model_backend = 1"
    by (simp add: hex_08 model_order_val)
  note good = scalar_fromString_format [OF model_modulo_order_ok, of ?ins, THEN conjunct2,
      rule_format, OF conjI [OF l h]]
  have g: "\<exists>s. Scalar_fromString model_backend ?ins = Inr s \<and> scalar_val s = 1"
    using good unfolding v .
  have "length ''12345'' \<noteq> 64 \<or> \<not> list_all is_hex_digit ''12345''" by simp
  then have b: "Scalar_fromString model_backend ''12345'' = Inl FormatError"
    by (rule scalar_fromString_format [OF model_modulo_order_ok, of "''12345''", THEN conjunct1,
        THEN iffD2])
  from model_modulo_order_ok l h g b show ?thesis by (intro conjI)
qed

text \<open>Claim C7, as amended. For scalars \<open>a\<close> and \<open>b\<close> in the range \<open>[0, L)\<close> with \<open>b\<close> nonzero,
  dividing the product \<open>a * b\<close> by \<open>b\<close> gives back \<open>a\<close>: the division succeeds and its
  result is equal to \<open>a\<close> digit by digit. Both operators go through the backend's Montgomery
  domain, and the division inverts the divisor there.\<close>

theorem mul_then_div:
  assumes "montgomery_ok bk" and "in_range bk a" and "in_range bk b"
    and "\<not> Scalar_isZero b"
  shows "Scalar_div bk (Scalar_mul bk a b) b = Inr a"
proof -
  have v: "scalar_val (Scalar_mul bk a b) = scalar_val a * scalar_val b mod order_val bk"
    and r: "in_range bk (Scalar_mul bk a b)"
    using Scalar_mul_val [OF assms(1-3)] by simp_all
  from Scalar_div_val [OF assms(1) r assms(3,4)] v
  obtain q where q: "Scalar_div bk (Scalar_mul bk a b) b = Inr q"
    and vq: "scalar_val q = scalar_val a mod order_val bk" by blast
  have "scalar_val q = scalar_val a" using vq assms(2) by (simp add: in_range_def)
  then have "q = a" by (rule scalar_val_inj)
  with q show ?thesis by simp
qed

theorem mul_then_div_witness:
  "montgomery_ok model_backend \<and>
   in_range model_backend (Scalar_of_uint32 5) \<and>
   in_range model_backend (Scalar_of_uint32 3) \<and>
   \<not> Scalar_isZero (Scalar_of_uint32 3) \<and>
   Scalar_div model_backend (Scalar_mul model_backend (Scalar_of_uint32 5) (Scalar_of_uint32 3))
     (Scalar_of_uint32 3) = Inr (Scalar_of_uint32 5)"
proof -
  have a: "in_range model_backend (Scalar_of_uint32 5)"
    by (rule model_small_in_range) simp
  have b: "in_range model_backend (Scalar_of_uint32 3)"
    by (rule model_small_in_range) simp
  have nz: "\<not> Scalar_isZero (Scalar_of_uint32 3)"
    by (simp add: Scalar_isZero_def Scalar_of_uint32_def)
  from mul_then_div [OF model_montgomery_ok a b nz] a b nz model_montgomery_ok
  show ?thesis by simp
qed

text \<open>Claim C7 as first stated, for all scalars, fails. \<^verbatim>\<open>Point::getOrder()\<close> is a
  scalar that \<^verbatim>\<open>isZero\<close> reports as nonzero, with the value \<open>L\<close>. On the reference
  backend, which meets the Montgomery contract, its product with the scalar 1 is the zero
  scalar, and dividing that by 1 gives the zero scalar, not \<^verbatim>\<open>getOrder()\<close>.\<close>

theorem mul_then_div_getOrder:
  "montgomery_ok model_backend \<and>
   \<not> Scalar_isZero (Scalar_of_uint32 1) \<and>
   \<not> Scalar_isZero (Point_getOrder model_backend) \<and>
   Scalar_div model_backend
     (Scalar_mul model_backend (Point_getOrder model_backend) (Scalar_of_uint32 1))
     (Scalar_of_uint32 1) = Inr (Digits 0 0 0 0) \<and>
   Point_getOrder model_backend = Digits 7 0 0 0 \<and>
   Scalar_div model_backend
     (Scalar_mul model_backend (Point_getOrder model_backend) (Scalar_of_uint32 1))
     (Scalar_of_uint32 1) \<noteq> Inr (Point_getOrder model_backend)"
proof -
  have one: "Scalar_of_uint32 1 = Digits 1 0 0 0"
    by (simp add: Scalar_of_uint32_def)
  have ord: "Point_getOrder model_backend = Digits 7 0 0 0"
    by (simp add: Point_getOrder_def model_backend_def)
  have nz1: "\<not> Scalar_isZero (Scalar_of_uint32 1)"
    by (simp add: one Scalar_isZero_def)
  have nzL: "\<not> Scalar_isZero (Point_getOrder model_backend)"
    by (simp add: ord Scalar_isZero_def)
  have f: "to_Montgomery model_backend = (\<lambda>a. scalar_of_nat (scalar_val a * 2 mod 7))"
    "from_Montgomery model_backend = (\<lambda>a. scalar_of_nat (scalar_val a * 4 mod 7))"
    "Montgomery_multiply_mod_order model_backend
       = (\<lambda>a b. scalar_of_nat (scalar_val a * scalar_val b * 4 mod 7))"
    "Montgomery_inversion_mod_order model_backend
       = (\<lambda>a. scalar_of_nat ((scalar_val a mod 7) ^ 5 * 4 mod 7))"
    by (simp_all add: model_backend_def)
  have prod: "Scalar_mul model_backend (Point_getOrder model_backend) (Scalar_of_uint32 1)
      = Digits 0 0 0 0"
    unfolding ord one by (simp add: Scalar_mul_def Let_def f scalar_of_nat_def)
  have quot: "Scalar_div model_backend (Digits 0 0 0 0) (Scalar_of_uint32 1) = Inr (Digits 0 0 0 0)"
    unfolding one by (simp add: Scalar_div_def Scalar_isZero_def Let_def f scalar_of_nat_def)
  have d: "Scalar_div model_backend
     (Scalar_mul model_backend (Point_getOrder model_backend) (Scalar_of_uint32 1))
     (Scalar_of_uint32 1) = Inr (Digits 0 0 0 0)"
    by (simp only: prod quot)
  have ne0: "(Inr (Digits 0 0 0 0) :: error + Scalar) \<noteq> Inr (Point_getOrder model_backend)"
    by (simp add: ord)
  have ne: "Scalar_div model_backend
     (Scalar_mul model_backend (Point_getOrder model_backend) (Scalar_of_uint32 1))
     (Scalar_of_uint32 1) \<noteq> Inr (Point_getOrder model_backend)"
    by (subst d) (rule ne0)
  from model_montgomery_ok nz1 nzL d ord ne show ?thesis by (intro conjI)
qed

text \<open>Claim C8. \<^verbatim>\<open>operator/\<close> throws its arithmetic error exactly when the divisor
  is the zero scalar and \<^verbatim>\<open>Scalar::invert\<close> exactly when its argument is; on every other
  divisor or argument they return a result. This holds whatever the backend computes.\<close>

theorem division_by_zero_exactly:
  "(Scalar_div bk lh rh = Inl ArithmeticError \<longleftrightarrow> rh = Scalar_getZero) \<and>
   (rh \<noteq> Scalar_getZero \<longrightarrow> (\<exists>q. Scalar_div bk lh rh = Inr q)) \<and>
   (Scalar_invert bk b = Inl ArithmeticError \<longleftrightarrow> b = Scalar_getZero) \<and>
   (b \<noteq> Scalar_getZero \<longrightarrow> (\<exists>r. Scalar_invert bk b = Inr r))"
  by (simp add: Scalar_div_def Scalar_invert_def Let_def Scalar_isZero_iff)

theorem division_by_zero_exactly_witness:
  "Scalar_div model_backend (Scalar_of_uint32 6) Scalar_getZero = Inl ArithmeticError \<and>
   Scalar_invert model_backend Scalar_getZero = Inl ArithmeticError \<and>
   Scalar_of_uint32 3 \<noteq> Scalar_getZero \<and>
   (\<exists>q. Scalar_div model_backend (Scalar_of_uint32 6) (Scalar_of_uint32 3) = Inr q) \<and>
   (\<exists>r. Scalar_invert model_backend (Scalar_of_uint32 3) = Inr r)"
proof -
  have nz: "Scalar_of_uint32 3 \<noteq> Scalar_getZero"
    by (simp add: Scalar_getZero_def Scalar_of_uint32_def)
  from division_by_zero_exactly [of model_backend "Scalar_of_uint32 6" "Scalar_of_uint32 3" "Scalar_of_uint32 3"]
    division_by_zero_exactly [of model_backend "Scalar_of_uint32 6" Scalar_getZero Scalar_getZero]
    nz
  show ?thesis by blast
qed

text \<open>Claim C9. \<^verbatim>\<open>SchnorrQSign\<close> on an empty message never calls the backend's
  \<^verbatim>\<open>SchnorrQ_Sign\<close> and never reports success, for every secret key and every backend.
  It first derives the public key with \<^verbatim>\<open>Point::mulBase\<close>; whenever that fixed-base
  multiplication succeeds, the call returns \<^verbatim>\<open>false\<close> and leaves the signature buffer
  as it was.\<close>

theorem sign_empty_message:
  "snd (snd (SchnorrQSign bk secretKey [] sig)) = [] \<and>
   fst (SchnorrQSign bk secretKey [] sig) \<noteq> Inr True \<and>
   (ecc_mul_fixed bk secretKey \<noteq> None \<longrightarrow>
      SchnorrQSign bk secretKey [] sig = (Inr False, sig, []))"
  by (auto simp: SchnorrQSign_def Point_mulBase_def Let_def split: option.splits sum.splits)

theorem sign_empty_message_witness:
  "ecc_mul_fixed model_backend (Scalar_of_uint32 3) \<noteq> None \<and>
   SchnorrQSign model_backend (Scalar_of_uint32 3) [] (replicate 64 0)
     = (Inr False, replicate 64 0, [])"
proof -
  have h: "ecc_mul_fixed model_backend (Scalar_of_uint32 3) \<noteq> None"
    by (simp add: model_backend_def)
  from sign_empty_message [of model_backend "Scalar_of_uint32 3" "replicate 64 0"] h
  show ?thesis by blast
qed

text \<open>Claim C10. \<^verbatim>\<open>Point::isZero\<close> returns true exactly when the point normalizes to the
  affine identity \<open>x = 0\<close>, \<open>y = 1\<close>. When set-up followed by normalization gives back
  the affine identity, a default-constructed point and \<^verbatim>\<open>Point::getZero()\<close> are zero; when
  it gives back the generator, and the generator is not the affine identity,
  \<^verbatim>\<open>Point::getBase()\<close> is not zero.\<close>

theorem isZero_is_identity:
  "(Point_isZero bk P \<longleftrightarrow> eccnorm bk P = zero_affine) \<and>
   (setup_norm_ok bk zero_affine \<longrightarrow>
      Point_isZero bk (Point_default bk) \<and> Point_isZero bk (Point_getZero bk)) \<and>
   (setup_norm_ok bk (eccset bk) \<and> eccset bk \<noteq> zero_affine \<longrightarrow>
      \<not> Point_isZero bk (Point_getBase bk))"
proof -
  have iff: "Point_isZero bk Q \<longleftrightarrow> eccnorm bk Q = zero_affine" for Q
    by (auto simp: Point_isZero_def Let_def)
  show ?thesis
    by (simp add: iff setup_norm_ok_def Point_default_def Point_getZero_def Point_getBase_def)
qed

theorem isZero_is_identity_witness:
  "setup_norm_ok model_backend zero_affine \<and>
   setup_norm_ok model_backend (eccset model_backend) \<and>
   eccset model_backend \<noteq> zero_affine \<and>
   Point_isZero model_backend (Point_default model_backend) \<and>
   Point_isZero model_backend (Point_getZero model_backend) \<and>
   \<not> Point_isZero model_backend (Point_getBase model_backend)"
proof -
  have z: "setup_norm_ok model_backend zero_affine"
    unfolding zero_affine_model by (rule model_setup_norm) simp
  have es: "eccset model_backend = model_affine 1"
    by (simp add: model_backend_def)
  have g: "setup_norm_ok model_backend (eccset model_backend)"
    unfolding es by (rule model_setup_norm) simp
  have ne: "eccset model_backend \<noteq> zero_affine"
    unfolding es zero_affine_model using model_affine_inj [of 1 0] by auto
  from isZero_is_identity [of model_backend 0] z g ne show ?thesis by blast
qed

end
